theory Spec2Isabelle
  imports Main "HOL-Library.Word"
begin

unbundle bit_operations_syntax

section \<open>Vulkan values used by the scheduler, the fences and the allocator\<close>

text \<open>
  Handles (\<open>VkRenderPass\<close>, \<open>VkFramebuffer\<close>, \<open>VkSemaphore\<close>, \<open>VkImage\<close>) and the raw
  \<open>GraphicsPipeline*\<close> pointer are 64-bit values; \<open>0\<close> is \<open>VK_NULL_HANDLE\<close> and \<open>nullptr\<close>.
\<close>

type_synonym u32 = "32 word"
type_synonym u64 = "64 word"
type_synonym handle = "64 word"

datatype VkResult =
    VK_SUCCESS
  | VK_SUBOPTIMAL_KHR
  | VK_ERROR_DEVICE_LOST
  | VK_ERROR_SURFACE_LOST_KHR
  | VK_ERROR_OUT_OF_DATE_KHR
  | VK_ERROR_OTHER int

record VkExtent2D =
  width :: u32
  height :: u32

record VkImageSubresourceRange =
  aspectMask :: u32
  baseMipLevel :: u32
  levelCount :: u32
  baseArrayLayer :: u32
  layerCount :: u32

record VkImageMemoryBarrier =
  srcAccessMask :: u32
  dstAccessMask :: u32
  oldLayout :: u32
  newLayout :: u32
  srcQueueFamilyIndex :: u32
  dstQueueFamilyIndex :: u32
  barrier_image :: handle
  subresourceRange :: VkImageSubresourceRange

text \<open>The values of the Vulkan header constants that the code names.\<close>

definition VK_IMAGE_ASPECT_DEPTH_BIT :: u32 where "VK_IMAGE_ASPECT_DEPTH_BIT = 0x2"
definition VK_IMAGE_ASPECT_STENCIL_BIT :: u32 where "VK_IMAGE_ASPECT_STENCIL_BIT = 0x4"
definition VK_IMAGE_LAYOUT_GENERAL :: u32 where "VK_IMAGE_LAYOUT_GENERAL = 1"
definition VK_IMAGE_LAYOUT_COLOR_ATTACHMENT_OPTIMAL :: u32 where
  "VK_IMAGE_LAYOUT_COLOR_ATTACHMENT_OPTIMAL = 2"
definition VK_IMAGE_LAYOUT_DEPTH_STENCIL_ATTACHMENT_OPTIMAL :: u32 where
  "VK_IMAGE_LAYOUT_DEPTH_STENCIL_ATTACHMENT_OPTIMAL = 3"
definition VK_ACCESS_COLOR_ATTACHMENT_WRITE_BIT :: u32 where
  "VK_ACCESS_COLOR_ATTACHMENT_WRITE_BIT = 0x100"
definition VK_ACCESS_DEPTH_STENCIL_ATTACHMENT_WRITE_BIT :: u32 where
  "VK_ACCESS_DEPTH_STENCIL_ATTACHMENT_WRITE_BIT = 0x400"
definition VK_ACCESS_MEMORY_READ_BIT :: u32 where "VK_ACCESS_MEMORY_READ_BIT = 0x8000"
definition VK_ACCESS_MEMORY_WRITE_BIT :: u32 where "VK_ACCESS_MEMORY_WRITE_BIT = 0x10000"
definition VK_QUEUE_FAMILY_IGNORED :: u32 where "VK_QUEUE_FAMILY_IGNORED = NOT 0"
definition VK_PIPELINE_STAGE_LATE_FRAGMENT_TESTS_BIT :: u32 where
  "VK_PIPELINE_STAGE_LATE_FRAGMENT_TESTS_BIT = 0x200"
definition VK_PIPELINE_STAGE_COLOR_ATTACHMENT_OUTPUT_BIT :: u32 where
  "VK_PIPELINE_STAGE_COLOR_ATTACHMENT_OUTPUT_BIT = 0x400"
definition VK_PIPELINE_STAGE_ALL_COMMANDS_BIT :: u32 where
  "VK_PIPELINE_STAGE_ALL_COMMANDS_BIT = 0x10000"
definition VK_MEMORY_PROPERTY_DEVICE_LOCAL_BIT :: u32 where
  "VK_MEMORY_PROPERTY_DEVICE_LOCAL_BIT = 0x1"
definition VK_MEMORY_PROPERTY_HOST_VISIBLE_BIT :: u32 where
  "VK_MEMORY_PROPERTY_HOST_VISIBLE_BIT = 0x2"

section \<open>Recorded commands and command buffers\<close>

text \<open>
  A command buffer is the sequence of native calls recorded into it. \<open>CallPipelineBarrier\<close>
  carries the source and destination stage masks and the span of image barriers handed over;
  an entry of the span that was never written is \<open>None\<close>.
\<close>

datatype vk_call =
    CallBegin
  | CallBeginRenderPass handle handle VkExtent2D
  | CallEndRenderPass
  | CallPipelineBarrier u32 u32 "VkImageMemoryBarrier option list"
  | CallUploadWriteBarrier
  | CallEnd

text \<open>
  The closures the scheduler records. \<open>Closure n\<close> is a caller's closure, identified by the
  stamp it leaves when it runs; the other three are the lambdas of \<open>RequestRenderpass\<close>,
  \<open>EndRenderPass\<close> and \<open>SubmitExecution\<close> with the values they capture. The two pointers
  captured by the \<open>EndRenderPass\<close> lambda are the memory behind them (\<open>None\<close> is \<open>nullptr\<close>).
\<close>

datatype command =
    Closure nat
  | BeginRenderPassCmd handle handle VkExtent2D
  | EndRenderPassCmd u32 "(nat \<Rightarrow> handle) option" "(nat \<Rightarrow> VkImageSubresourceRange) option"
  | SubmitCmd u64 handle handle

text \<open>
  What ends the worker thread: \<open>ReportedDeviceLoss\<close> is \<open>device.ReportLoss()\<close> followed by
  the exception for \<open>VK_ERROR_DEVICE_LOST\<close>, \<open>VkException\<close> the exception of \<open>vk::Check\<close>;
  the other two are accesses outside an array and through \<open>nullptr\<close>.
\<close>

datatype exec_error =
    ReportedDeviceLoss
  | VkException VkResult
  | ArrayIndexOutOfBounds nat
  | NullPointerRead

section \<open>MasterSemaphore\<close>

record submission =
  sub_cmdbuf :: "vk_call list"
  sub_upload_cmdbuf :: "vk_call list"
  sub_signal_semaphore :: handle
  sub_wait_semaphore :: handle
  sub_signal_value :: u64

text \<open>
  Modelled from the spec: \<open>MasterSemaphore\<close> (vk_master_semaphore.h and .cpp) is not among
  the sources verified here.
  The spec describes it as wrapping "a monotonically increasing counter (tick) signaled by
  the host GPU", a tick being "an unsigned 64-bit counter" that is "completed once the host
  GPU timeline value \<ge> tick", with "monotonic tick issuance (NextTick/PeekNextTick)" and a
  queue submit that uses "the current tick as the signal value". \<open>current_tick\<close> is the next
  tick to hand out, \<open>gpu_tick\<close> the timeline value, \<open>gpu_queue\<close> the submissions handed to
  the GPU queue and not yet retired, oldest first, and \<open>gpu_completed\<close> the signal values of
  the submissions the GPU has retired.
\<close>

record MasterSemaphore =
  current_tick :: u64
  gpu_tick :: u64
  gpu_queue :: "submission list"
  gpu_completed :: "u64 list"

definition NextTick :: "MasterSemaphore \<Rightarrow> u64 \<times> MasterSemaphore" where
  "NextTick ms = (current_tick ms, ms\<lparr>current_tick := current_tick ms + 1\<rparr>)"

definition PeekNextTick :: "MasterSemaphore \<Rightarrow> u64" where
  "PeekNextTick ms = current_tick ms"

definition GetValue :: "MasterSemaphore \<Rightarrow> u64" where
  "GetValue ms = gpu_tick ms"

definition IsSignaled :: "MasterSemaphore \<Rightarrow> u64 \<Rightarrow> bool" where
  "IsSignaled ms tick = (tick \<le> gpu_tick ms)"

text \<open>
  Modelled from the spec: \<open>MasterSemaphore::SubmitQueue\<close> is not among the sources; the spec has
  it wrap "the native queue-submit call with the current tick as the signal value". It
  hands the two command buffers to the GPU queue with the signal value; the result is
  what the driver's queue submit returns, and nothing is queued unless it succeeds.
\<close>

definition SubmitQueue ::
  "VkResult \<Rightarrow> vk_call list \<Rightarrow> vk_call list \<Rightarrow> handle \<Rightarrow> handle \<Rightarrow> u64 \<Rightarrow> MasterSemaphore
   \<Rightarrow> VkResult \<times> MasterSemaphore" where
  "SubmitQueue driver_result cmdbuf upload_cmdbuf signal_semaphore wait_semaphore signal_value ms =
     (if driver_result = VK_SUCCESS
      then (VK_SUCCESS,
            ms\<lparr>gpu_queue := gpu_queue ms @
                  [\<lparr>sub_cmdbuf = cmdbuf, sub_upload_cmdbuf = upload_cmdbuf,
                    sub_signal_semaphore = signal_semaphore, sub_wait_semaphore = wait_semaphore,
                    sub_signal_value = signal_value\<rparr>]\<rparr>)
      else (driver_result, ms))"

text \<open>
  Modelled from the spec: the host GPU is no code of the repository; the spec has the
  tick "signaled by the host GPU" and submissions observed "in the order the render-logic
  thread issued them". The GPU retires the oldest submission of its queue and signals the
  timeline with that submission's signal value.
\<close>

definition gpu_retire :: "MasterSemaphore \<Rightarrow> MasterSemaphore" where
  "gpu_retire ms =
     (case gpu_queue ms of
        [] \<Rightarrow> ms
      | sub # rest \<Rightarrow>
          ms\<lparr>gpu_tick := sub_signal_value sub, gpu_queue := rest,
             gpu_completed := gpu_completed ms @ [sub_signal_value sub]\<rparr>)"

section \<open>Scheduler\<close>

record State =
  graphics_pipeline :: handle
  rescaling_defined :: bool
  is_rescaling :: bool
  renderpass :: handle
  framebuffer :: handle
  render_area :: VkExtent2D

record Framebuffer =
  fb_RenderPass :: handle
  fb_Handle :: handle
  fb_RenderArea :: VkExtent2D
  fb_NumImages :: u32
  fb_Images :: "(nat \<Rightarrow> handle) option"
  fb_ImageRanges :: "(nat \<Rightarrow> VkImageSubresourceRange) option"

text \<open>
  A chunk's singly linked list of commands, from \<open>first\<close> to \<open>last\<close>, is the list
  \<open>commands\<close> in link order; \<open>submit\<close> is the "contains a submission" marker.
\<close>

record CommandChunk =
  commands :: "command list"
  submit :: bool

text \<open>
  The scheduler with the state of its worker thread. \<open>chunk_fits\<close> stands for the arena
  capacity check of \<open>CommandChunk::Record\<close>: whether one more command fits behind the ones
  a chunk holds. \<open>query_cache\<close> is the nullable query cache, as the segment notifications
  it has received. \<open>stamps\<close> are the stamps left by the callers' closures that have run,
  \<open>cmdbuf_allocations\<close> counts the runs of \<open>AllocateWorkerCommandBuffer\<close>,
  \<open>tick_waits\<close> are the ticks \<open>WaitUntilTick\<close> has been called with.
\<close>

record Scheduler =
  state :: State
  num_renderpass_images :: u32
  renderpass_images :: "(nat \<Rightarrow> handle) option"
  renderpass_image_ranges :: "(nat \<Rightarrow> VkImageSubresourceRange) option"
  chunk :: CommandChunk
  work_queue :: "CommandChunk list"
  chunk_reserve :: "CommandChunk list"
  chunk_fits :: "command list \<Rightarrow> command \<Rightarrow> bool"
  master_semaphore :: MasterSemaphore
  query_cache :: "bool list option"
  current_cmdbuf :: "vk_call list"
  current_upload_cmdbuf :: "vk_call list"
  cmdbuf_allocations :: nat
  stamps :: "nat list"
  tick_waits :: "u64 list"

subsection \<open>Chunks: acquiring, dispatching, recording\<close>

definition AcquireNewChunk :: "Scheduler \<Rightarrow> Scheduler" where
  "AcquireNewChunk s =
     (if chunk_reserve s = []
      then s\<lparr>chunk := \<lparr>commands = [], submit = False\<rparr>\<rparr>
      else s\<lparr>chunk := last (chunk_reserve s), chunk_reserve := butlast (chunk_reserve s)\<rparr>)"

definition DispatchWork :: "Scheduler \<Rightarrow> Scheduler" where
  "DispatchWork s =
     (if commands (chunk s) = [] then s
      else AcquireNewChunk (s\<lparr>work_queue := work_queue s @ [chunk s]\<rparr>))"

text \<open>
  Modelled from the spec: \<open>Scheduler::Record\<close>, \<open>RecordWithUploadBuffer\<close> and
  \<open>CommandChunk::Record\<close> are templates of vk_scheduler.h, which is not among the sources. The spec:
  "appends a closure operating on the current command buffer to the active chunk. No
  blocking; if the chunk is full, an internal flush-and-acquire-new-chunk occurs
  transparently", "without dropping or reordering commands across the boundary".
\<close>

definition Record :: "command \<Rightarrow> Scheduler \<Rightarrow> Scheduler" where
  "Record c s =
     (let s1 = (if chunk_fits s (commands (chunk s)) c then s else DispatchWork s)
      in s1\<lparr>chunk := (chunk s1)\<lparr>commands := commands (chunk s1) @ [c]\<rparr>\<rparr>)"

definition MarkSubmit :: "Scheduler \<Rightarrow> Scheduler" where
  "MarkSubmit s = s\<lparr>chunk := (chunk s)\<lparr>submit := True\<rparr>\<rparr>"

subsection \<open>The state cache and render passes\<close>

definition EndRenderPass :: "Scheduler \<Rightarrow> Scheduler" where
  "EndRenderPass s =
     (if renderpass (state s) = 0 then s
      else
        (let s1 = Record (EndRenderPassCmd (num_renderpass_images s) (renderpass_images s)
                            (renderpass_image_ranges s)) s
         in s1\<lparr>state := (state s1)\<lparr>renderpass := 0, framebuffer := 0\<rparr>,
               num_renderpass_images := 0,
               renderpass_images := None,
               renderpass_image_ranges := None\<rparr>))"

definition renderpass_matches :: "Framebuffer \<Rightarrow> Scheduler \<Rightarrow> bool" where
  "renderpass_matches fb s =
     (renderpass (state s) = fb_RenderPass fb \<and> framebuffer (state s) = fb_Handle fb \<and>
      width (render_area (state s)) = width (fb_RenderArea fb) \<and>
      height (render_area (state s)) = height (fb_RenderArea fb))"

definition RequestRenderpass :: "Framebuffer \<Rightarrow> Scheduler \<Rightarrow> Scheduler" where
  "RequestRenderpass fb s =
     (if renderpass_matches fb s then s
      else
        (let s1 = EndRenderPass s;
             s2 = s1\<lparr>state := (state s1)\<lparr>renderpass := fb_RenderPass fb,
                                          framebuffer := fb_Handle fb,
                                          render_area := fb_RenderArea fb\<rparr>\<rparr>;
             s3 = Record (BeginRenderPassCmd (fb_RenderPass fb) (fb_Handle fb) (fb_RenderArea fb)) s2
         in s3\<lparr>num_renderpass_images := fb_NumImages fb,
               renderpass_images := fb_Images fb,
               renderpass_image_ranges := fb_ImageRanges fb\<rparr>))"

definition RequestOutsideRenderPassOperationContext :: "Scheduler \<Rightarrow> Scheduler" where
  "RequestOutsideRenderPassOperationContext s = EndRenderPass s"

definition UpdateGraphicsPipeline :: "handle \<Rightarrow> Scheduler \<Rightarrow> bool \<times> Scheduler" where
  "UpdateGraphicsPipeline pipeline s =
     (if graphics_pipeline (state s) = pipeline then (False, s)
      else (True, s\<lparr>state := (state s)\<lparr>graphics_pipeline := pipeline\<rparr>\<rparr>))"

definition UpdateRescaling :: "bool \<Rightarrow> Scheduler \<Rightarrow> bool \<times> Scheduler" where
  "UpdateRescaling rescaling s =
     (if rescaling_defined (state s) \<and> rescaling = is_rescaling (state s) then (False, s)
      else (True, s\<lparr>state := (state s)\<lparr>rescaling_defined := True, is_rescaling := rescaling\<rparr>\<rparr>))"

definition InvalidateState :: "Scheduler \<Rightarrow> Scheduler" where
  "InvalidateState s =
     s\<lparr>state := (state s)\<lparr>graphics_pipeline := 0, rescaling_defined := False,
                          renderpass := 0, framebuffer := 0\<rparr>\<rparr>"

definition NotifySegment :: "bool \<Rightarrow> Scheduler \<Rightarrow> Scheduler" where
  "NotifySegment b s =
     (case query_cache s of
        None \<Rightarrow> s
      | Some notified \<Rightarrow> s\<lparr>query_cache := Some (notified @ [b])\<rparr>)"

definition EndPendingOperations :: "Scheduler \<Rightarrow> Scheduler" where
  "EndPendingOperations s = EndRenderPass (NotifySegment False s)"

definition AllocateNewContext :: "Scheduler \<Rightarrow> Scheduler" where
  "AllocateNewContext s = NotifySegment True s"

subsection \<open>Submission\<close>

definition SubmitExecution :: "handle \<Rightarrow> handle \<Rightarrow> Scheduler \<Rightarrow> u64 \<times> Scheduler" where
  "SubmitExecution signal_semaphore wait_semaphore s =
     (let s1 = InvalidateState (EndPendingOperations s);
          (signal_value, ms) = NextTick (master_semaphore s1);
          s2 = s1\<lparr>master_semaphore := ms\<rparr>;
          s3 = Record (SubmitCmd signal_value signal_semaphore wait_semaphore) s2
      in (signal_value, DispatchWork (MarkSubmit s3)))"

definition Flush :: "handle \<Rightarrow> handle \<Rightarrow> Scheduler \<Rightarrow> u64 \<times> Scheduler" where
  "Flush signal_semaphore wait_semaphore s =
     (let (signal_value, s1) = SubmitExecution signal_semaphore wait_semaphore s
      in (signal_value, AllocateNewContext s1))"

definition GetSubmitTick :: "Scheduler \<Rightarrow> u64" where
  "GetSubmitTick s = PeekNextTick (master_semaphore s)"

definition IsTickCompleted :: "Scheduler \<Rightarrow> u64 \<Rightarrow> bool" where
  "IsTickCompleted s tick = IsSignaled (master_semaphore s) tick"

definition GetCompletedTick :: "Scheduler \<Rightarrow> u64" where
  "GetCompletedTick s = GetValue (master_semaphore s)"

subsection \<open>The closure recorded by EndRenderPass\<close>

definition MAX_BARRIERS :: nat where
  "MAX_BARRIERS = 9"

definition make_barrier :: "handle \<Rightarrow> VkImageSubresourceRange \<Rightarrow> VkImageMemoryBarrier" where
  "make_barrier img subresource =
     \<lparr>srcAccessMask = VK_ACCESS_COLOR_ATTACHMENT_WRITE_BIT OR
                      VK_ACCESS_DEPTH_STENCIL_ATTACHMENT_WRITE_BIT,
      dstAccessMask = VK_ACCESS_MEMORY_READ_BIT OR VK_ACCESS_MEMORY_WRITE_BIT,
      oldLayout = (if aspectMask subresource AND
                        (VK_IMAGE_ASPECT_DEPTH_BIT OR VK_IMAGE_ASPECT_STENCIL_BIT) \<noteq> 0
                   then VK_IMAGE_LAYOUT_DEPTH_STENCIL_ATTACHMENT_OPTIMAL
                   else VK_IMAGE_LAYOUT_COLOR_ATTACHMENT_OPTIMAL),
      newLayout = VK_IMAGE_LAYOUT_GENERAL,
      srcQueueFamilyIndex = VK_QUEUE_FAMILY_IGNORED,
      dstQueueFamilyIndex = VK_QUEUE_FAMILY_IGNORED,
      barrier_image = img,
      subresourceRange = subresource\<rparr>"

text \<open>
  The \<open>for\<close> loop over \<open>i < barrier_count\<close>. The on-stack array is a list of
  \<open>MAX_BARRIERS\<close> slots, \<open>None\<close> while unwritten; a store outside it is the error
  \<open>ArrayIndexOutOfBounds\<close>, a read through a null \<open>ranges\<close> or \<open>images\<close> is
  \<open>NullPointerRead\<close>.
\<close>

function barrier_loop ::
  "u32 \<Rightarrow> u32 \<Rightarrow> (nat \<Rightarrow> handle) option \<Rightarrow> (nat \<Rightarrow> VkImageSubresourceRange) option
   \<Rightarrow> VkImageMemoryBarrier option list \<Rightarrow> exec_error + VkImageMemoryBarrier option list" where
  "barrier_loop i barrier_count images ranges barriers =
     (if i < barrier_count then
        (case ranges of
           None \<Rightarrow> Inl NullPointerRead
         | Some rs \<Rightarrow>
             (case images of
                None \<Rightarrow> Inl NullPointerRead
              | Some imgs \<Rightarrow>
                  if unat i < length barriers
                  then barrier_loop (i + 1) barrier_count images ranges
                         (barriers[unat i := Some (make_barrier (imgs (unat i)) (rs (unat i)))])
                  else Inl (ArrayIndexOutOfBounds (unat i))))
      else Inr barriers)"
  by pat_completeness auto
termination
proof (relation "measure (\<lambda>(i, barrier_count, images, ranges, barriers). unat barrier_count - unat i)")
  show "wf (measure (\<lambda>(i, barrier_count, images, ranges, barriers). unat barrier_count - unat i))"
    by simp
next
  fix i barrier_count :: u32
  fix images :: "(nat \<Rightarrow> handle) option"
  fix ranges :: "(nat \<Rightarrow> VkImageSubresourceRange) option"
  fix barriers :: "VkImageMemoryBarrier option list"
  fix rs imgs
  assume lt: "i < barrier_count"
  then have below: "unat i < unat barrier_count"
    by (simp add: word_less_nat_alt)
  have "unat barrier_count < 2 ^ 32"
    using unsigned_less [of barrier_count] by simp
  with below have "unat i + 1 < 2 ^ 32"
    by linarith
  then have "unat (i + 1) = unat i + 1"
    by (simp add: unat_word_ariths)
  with below show "((i + 1, barrier_count, images, ranges,
            barriers[unat i := Some (make_barrier (imgs (unat i)) (rs (unat i)))]),
           i, barrier_count, images, ranges, barriers)
          \<in> measure (\<lambda>(i, barrier_count, images, ranges, barriers). unat barrier_count - unat i)"
    by simp
qed

definition barrier_count_of :: "u32 \<Rightarrow> u32" where
  "barrier_count_of num_images =
     (if MAX_BARRIERS < unat num_images then word_of_nat MAX_BARRIERS else num_images)"

definition EndRenderPass_closure ::
  "u32 \<Rightarrow> (nat \<Rightarrow> handle) option \<Rightarrow> (nat \<Rightarrow> VkImageSubresourceRange) option
   \<Rightarrow> vk_call list \<Rightarrow> exec_error + vk_call list" where
  "EndRenderPass_closure num_images images ranges cmdbuf =
     (let barrier_count = barrier_count_of num_images
      in case barrier_loop 0 barrier_count images ranges (replicate MAX_BARRIERS None) of
           Inl e \<Rightarrow> Inl e
         | Inr barriers \<Rightarrow>
             Inr (cmdbuf @
                  [CallEndRenderPass,
                   CallPipelineBarrier
                     (VK_PIPELINE_STAGE_COLOR_ATTACHMENT_OUTPUT_BIT OR
                      VK_PIPELINE_STAGE_LATE_FRAGMENT_TESTS_BIT)
                     VK_PIPELINE_STAGE_ALL_COMMANDS_BIT
                     (take (unat barrier_count) barriers)]))"

subsection \<open>The worker thread\<close>

text \<open>
  Running one recorded command on the worker thread. \<open>driver_result\<close> is what the driver
  returns for a queue submit made while this chunk runs. The optional \<open>on_submit\<close>
  callback is not modelled.
\<close>

fun Execute :: "VkResult \<Rightarrow> command \<Rightarrow> Scheduler \<Rightarrow> exec_error + Scheduler" where
  "Execute driver_result (Closure n) s = Inr (s\<lparr>stamps := stamps s @ [n]\<rparr>)"
| "Execute driver_result (BeginRenderPassCmd rp fb area) s =
     Inr (s\<lparr>current_cmdbuf := current_cmdbuf s @ [CallBeginRenderPass rp fb area]\<rparr>)"
| "Execute driver_result (EndRenderPassCmd num_images images ranges) s =
     (case EndRenderPass_closure num_images images ranges (current_cmdbuf s) of
        Inl e \<Rightarrow> Inl e
      | Inr cmdbuf \<Rightarrow> Inr (s\<lparr>current_cmdbuf := cmdbuf\<rparr>))"
| "Execute driver_result (SubmitCmd signal_value signal_semaphore wait_semaphore) s =
     (let upload_cmdbuf = current_upload_cmdbuf s @ [CallUploadWriteBarrier, CallEnd];
          cmdbuf = current_cmdbuf s @ [CallEnd];
          (result, ms) = SubmitQueue driver_result cmdbuf upload_cmdbuf signal_semaphore
                           wait_semaphore signal_value (master_semaphore s)
      in case result of
           VK_SUCCESS \<Rightarrow>
             Inr (s\<lparr>current_upload_cmdbuf := upload_cmdbuf, current_cmdbuf := cmdbuf,
                    master_semaphore := ms\<rparr>)
         | VK_ERROR_DEVICE_LOST \<Rightarrow> Inl ReportedDeviceLoss
         | _ \<Rightarrow> Inl (VkException result))"

fun ExecuteAll_loop :: "VkResult \<Rightarrow> command list \<Rightarrow> Scheduler \<Rightarrow> exec_error + Scheduler" where
  "ExecuteAll_loop driver_result [] s = Inr s"
| "ExecuteAll_loop driver_result (command # next) s =
     (case Execute driver_result command s of
        Inl e \<Rightarrow> Inl e
      | Inr s' \<Rightarrow> ExecuteAll_loop driver_result next s')"

definition ExecuteAll ::
  "VkResult \<Rightarrow> CommandChunk \<Rightarrow> Scheduler \<Rightarrow> exec_error + CommandChunk \<times> Scheduler" where
  "ExecuteAll driver_result work s =
     (case ExecuteAll_loop driver_result (commands work) s of
        Inl e \<Rightarrow> Inl e
      | Inr s' \<Rightarrow> Inr (work\<lparr>submit := False, commands := []\<rparr>, s'))"

definition AllocateWorkerCommandBuffer :: "Scheduler \<Rightarrow> Scheduler" where
  "AllocateWorkerCommandBuffer s =
     s\<lparr>current_cmdbuf := [CallBegin], current_upload_cmdbuf := [CallBegin],
       cmdbuf_allocations := cmdbuf_allocations s + 1\<rparr>"

text \<open>
  One turn of the loop of \<open>WorkerThread\<close>: with an empty queue the thread keeps waiting;
  otherwise it pops the front chunk, runs it, takes new command buffers if the chunk was
  marked as a submission and puts the drained chunk into the reserve.
\<close>

definition WorkerThread_turn :: "VkResult \<Rightarrow> Scheduler \<Rightarrow> exec_error + Scheduler" where
  "WorkerThread_turn driver_result s =
     (case work_queue s of
        [] \<Rightarrow> Inr s
      | work # rest \<Rightarrow>
          (let is_submission = submit work
           in case ExecuteAll driver_result work (s\<lparr>work_queue := rest\<rparr>) of
                Inl e \<Rightarrow> Inl e
              | Inr (work', s1) \<Rightarrow>
                  (let s2 = (if is_submission then AllocateWorkerCommandBuffer s1 else s1)
                   in Inr (s2\<lparr>chunk_reserve := chunk_reserve s2 @ [work']\<rparr>))))"

subsection \<open>What runs beside the recording thread\<close>

text \<open>
  The worker thread and the GPU run concurrently with the thread that records. A run of
  the system interleaves the recording thread's calls with these two events.
\<close>

datatype event = WorkerRuns VkResult | GpuRetires

definition env_step :: "event \<Rightarrow> Scheduler \<Rightarrow> exec_error + Scheduler" where
  "env_step e s =
     (case e of
        WorkerRuns driver_result \<Rightarrow> WorkerThread_turn driver_result s
      | GpuRetires \<Rightarrow> Inr (s\<lparr>master_semaphore := gpu_retire (master_semaphore s)\<rparr>))"

text \<open>
  The result of a call that may block: it returned, it is still blocked when the events
  given to it are used up, or the worker thread threw and the process ended.
\<close>

datatype 'a outcome = Threw exec_error | Blocked | Done 'a

text \<open>
  Modelled from the spec: \<open>MasterSemaphore::Wait\<close> is not among the sources; the spec calls it a
  blocking wait until the tick is completed. The waiting thread lets the other threads
  run, one event at a time, until the tick is signaled, and returns the events left over.
\<close>

fun MasterSemaphore_Wait ::
  "u64 \<Rightarrow> event list \<Rightarrow> Scheduler \<Rightarrow> (Scheduler \<times> event list) outcome" where
  "MasterSemaphore_Wait tick [] s =
     (if IsSignaled (master_semaphore s) tick then Done (s, []) else Blocked)"
| "MasterSemaphore_Wait tick (e # evs) s =
     (if IsSignaled (master_semaphore s) tick then Done (s, e # evs)
      else case env_step e s of
             Inl err \<Rightarrow> Threw err
           | Inr s' \<Rightarrow> MasterSemaphore_Wait tick evs s')"

definition WaitUntilTick ::
  "u64 \<Rightarrow> event list \<Rightarrow> Scheduler \<Rightarrow> (Scheduler \<times> event list) outcome" where
  "WaitUntilTick tick evs s =
     MasterSemaphore_Wait tick evs (s\<lparr>tick_waits := tick_waits s @ [tick]\<rparr>)"

definition Finish ::
  "handle \<Rightarrow> handle \<Rightarrow> event list \<Rightarrow> Scheduler \<Rightarrow> (Scheduler \<times> event list) outcome" where
  "Finish signal_semaphore wait_semaphore evs s =
     (let (signal_value, s1) = SubmitExecution signal_semaphore wait_semaphore s
      in case WaitUntilTick signal_value evs s1 of
           Threw err \<Rightarrow> Threw err
         | Blocked \<Rightarrow> Blocked
         | Done (s2, rest) \<Rightarrow> Done (AllocateNewContext s2, rest))"

subsection \<open>Construction\<close>

text \<open>
  The constructor: every member in its initial state, then \<open>AcquireNewChunk\<close> and
  \<open>AllocateWorkerCommandBuffer\<close>. The members' initialisers are in the header, which is not among the sources:
  handles and pointers start null, the flags false, the queues empty, the GPU timeline at
  \<open>0\<close> and the first tick to hand out at \<open>1\<close> (\<open>InnerFence\<close> reads a tick of \<open>0\<close> as
  "never queued"). The arena capacity check and the presence of a query cache are the
  two parameters.
\<close>

definition Scheduler_new :: "(command list \<Rightarrow> command \<Rightarrow> bool) \<Rightarrow> bool \<Rightarrow> Scheduler" where
  "Scheduler_new fits has_query_cache =
     AllocateWorkerCommandBuffer (AcquireNewChunk
       \<lparr>state = \<lparr>graphics_pipeline = 0, rescaling_defined = False, is_rescaling = False,
                  renderpass = 0, framebuffer = 0,
                  render_area = \<lparr>width = 0, height = 0\<rparr>\<rparr>,
        num_renderpass_images = 0,
        renderpass_images = None,
        renderpass_image_ranges = None,
        chunk = \<lparr>commands = [], submit = False\<rparr>,
        work_queue = [],
        chunk_reserve = [],
        chunk_fits = fits,
        master_semaphore = \<lparr>current_tick = 1, gpu_tick = 0, gpu_queue = [], gpu_completed = []\<rparr>,
        query_cache = (if has_query_cache then Some [] else None),
        current_cmdbuf = [],
        current_upload_cmdbuf = [],
        cmdbuf_allocations = 0,
        stamps = [],
        tick_waits = []\<rparr>)"

text \<open>
  Everything recorded and not yet run by the worker thread, oldest first: the commands of
  the queued chunks, then those of the chunk being filled.
\<close>

definition pending_commands :: "Scheduler \<Rightarrow> command list" where
  "pending_commands s = concat (map commands (work_queue s)) @ commands (chunk s)"

text \<open>
  Every chunk in the reserve has been reset, as \<open>ExecuteAll\<close> leaves a chunk before the
  worker thread puts it there.
\<close>

definition reserve_is_reset :: "Scheduler \<Rightarrow> bool" where
  "reserve_is_reset s = list_all (\<lambda>c. commands c = []) (chunk_reserve s)"

fun is_begin_render_pass :: "command \<Rightarrow> bool" where
  "is_begin_render_pass (BeginRenderPassCmd rp fb area) = True"
| "is_begin_render_pass _ = False"

definition begin_render_pass_count :: "Scheduler \<Rightarrow> nat" where
  "begin_render_pass_count s = length (filter is_begin_render_pass (pending_commands s))"

subsection \<open>Runs of the recording thread beside the worker thread and the GPU\<close>

text \<open>
  The calls of the recording thread that do not block, and the events of the other two
  threads between them. A call is one step of the run: the queue and the reserve are
  handed over under their mutexes.
\<close>

datatype op =
    OpRecord nat
  | OpRequestRenderpass Framebuffer
  | OpRequestOutsideRenderPassOperationContext
  | OpUpdateGraphicsPipeline handle
  | OpUpdateRescaling bool
  | OpDispatchWork
  | OpFlush handle handle
  | OpEnv event

text \<open>One step of a run, with the ticks it returned (one for a \<open>Flush\<close>, none otherwise).\<close>

fun run_op :: "op \<Rightarrow> Scheduler \<Rightarrow> exec_error + u64 list \<times> Scheduler" where
  "run_op (OpRecord n) s = Inr ([], Record (Closure n) s)"
| "run_op (OpRequestRenderpass fb) s = Inr ([], RequestRenderpass fb s)"
| "run_op OpRequestOutsideRenderPassOperationContext s =
     Inr ([], RequestOutsideRenderPassOperationContext s)"
| "run_op (OpUpdateGraphicsPipeline pipeline) s = Inr ([], snd (UpdateGraphicsPipeline pipeline s))"
| "run_op (OpUpdateRescaling rescaling) s = Inr ([], snd (UpdateRescaling rescaling s))"
| "run_op OpDispatchWork s = Inr ([], DispatchWork s)"
| "run_op (OpFlush signal_semaphore wait_semaphore) s =
     (let (tick, s') = Flush signal_semaphore wait_semaphore s in Inr ([tick], s'))"
| "run_op (OpEnv e) s = (case env_step e s of Inl err \<Rightarrow> Inl err | Inr s' \<Rightarrow> Inr ([], s'))"

fun run :: "op list \<Rightarrow> Scheduler \<Rightarrow> exec_error + u64 list \<times> Scheduler" where
  "run [] s = Inr ([], s)"
| "run (x # ops) s =
     (case run_op x s of
        Inl err \<Rightarrow> Inl err
      | Inr (ticks, s') \<Rightarrow>
          (case run ops s' of
             Inl err \<Rightarrow> Inl err
           | Inr (ticks', s'') \<Rightarrow> Inr (ticks @ ticks', s'')))"

text \<open>The stamps of the closures a run records, in the order of the calls.\<close>

fun recorded_stamps :: "op list \<Rightarrow> nat list" where
  "recorded_stamps [] = []"
| "recorded_stamps (OpRecord n # ops) = n # recorded_stamps ops"
| "recorded_stamps (_ # ops) = recorded_stamps ops"

text \<open>The stamps of the callers' closures and the ticks of the submissions in a command list.\<close>

fun closure_stamps :: "command list \<Rightarrow> nat list" where
  "closure_stamps [] = []"
| "closure_stamps (Closure n # cmds) = n # closure_stamps cmds"
| "closure_stamps (_ # cmds) = closure_stamps cmds"

fun submit_ticks :: "command list \<Rightarrow> u64 list" where
  "submit_ticks [] = []"
| "submit_ticks (SubmitCmd tick signal_semaphore wait_semaphore # cmds) = tick # submit_ticks cmds"
| "submit_ticks (_ # cmds) = submit_ticks cmds"

text \<open>
  The ticks of a scheduler in the order of their life: the GPU timeline value, the signal
  values of the submissions in the GPU queue, the ticks of the submissions recorded and
  not yet run by the worker, and the next tick to hand out. In a scheduler whose counter
  has not wrapped around, this sequence is strictly increasing.
\<close>

definition timeline :: "Scheduler \<Rightarrow> u64 list" where
  "timeline s =
     gpu_tick (master_semaphore s) #
     map sub_signal_value (gpu_queue (master_semaphore s)) @
     submit_ticks (pending_commands s) @
     [current_tick (master_semaphore s)]"

definition ticks_in_order :: "Scheduler \<Rightarrow> bool" where
  "ticks_in_order s = sorted_wrt (<) (timeline s)"

text \<open>The timeline value has reached the signal value of every retired submission.\<close>

definition retired_are_signaled :: "Scheduler \<Rightarrow> bool" where
  "retired_are_signaled s =
     list_all (\<lambda>tick. tick \<le> gpu_tick (master_semaphore s))
       (gpu_completed (master_semaphore s))"

definition scheduler_invariant :: "Scheduler \<Rightarrow> bool" where
  "scheduler_invariant s = (reserve_is_reset s \<and> ticks_in_order s \<and> retired_are_signaled s)"

text \<open>
  Every tick handed out and still known to the scheduler, in the order of issue: the
  signal values of the retired submissions, of those in the GPU queue, and of those
  recorded and not yet run by the worker.
\<close>

definition issued_ticks :: "Scheduler \<Rightarrow> u64 list" where
  "issued_ticks s =
     gpu_completed (master_semaphore s) @
     map sub_signal_value (gpu_queue (master_semaphore s)) @
     submit_ticks (pending_commands s)"

definition pending_stamps :: "Scheduler \<Rightarrow> nat list" where
  "pending_stamps s = closure_stamps (pending_commands s)"

text \<open>The worker thread and the GPU take their turns in the order of a list of events.\<close>

fun env_run :: "event list \<Rightarrow> Scheduler \<Rightarrow> exec_error + Scheduler" where
  "env_run [] s = Inr s"
| "env_run (e # evs) s =
     (case env_step e s of
        Inl err \<Rightarrow> Inl err
      | Inr s' \<Rightarrow> env_run evs s')"

text \<open>
  A recorded command that runs without a fault: the closure of \<open>EndRenderPass\<close> reads
  through its two pointers unless there is no attachment, so they must not be null then.
  A scheduler is faultless when this holds of every pending command and of the render
  pass data it would capture next.
\<close>

fun runs_safely :: "command \<Rightarrow> bool" where
  "runs_safely (EndRenderPassCmd num_images images ranges) =
     (num_images = 0 \<or> (images \<noteq> None \<and> ranges \<noteq> None))"
| "runs_safely _ = True"

definition faultless :: "Scheduler \<Rightarrow> bool" where
  "faultless s =
     (list_all runs_safely (pending_commands s) \<and>
      runs_safely (EndRenderPassCmd (num_renderpass_images s) (renderpass_images s)
                     (renderpass_image_ranges s)))"

text \<open>
  The schedule that lets the worker thread take one turn for every queued chunk and then
  the GPU retire one submission for each of a number of submissions.
\<close>

definition drain_schedule :: "nat \<Rightarrow> nat \<Rightarrow> event list" where
  "drain_schedule chunks submissions =
     replicate chunks (WorkerRuns VK_SUCCESS) @ replicate submissions GpuRetires"


section \<open>InnerFence and FenceManager\<close>

record InnerFence =
  is_stubbed :: bool
  wait_tick :: u64

definition InnerFence_new :: "bool \<Rightarrow> InnerFence" where
  "InnerFence_new stubbed = \<lparr>is_stubbed = stubbed, wait_tick = 0\<rparr>"

text \<open>
  \<open>Scheduler::QueueGpuFence\<close> is called here and defined nowhere in the sources; it is
  the parameter \<open>QueueGpuFence\<close>, a function of the stubbed flag and the scheduler that
  returns a tick and the scheduler after the call.
\<close>

definition InnerFence_Queue ::
  "(bool \<Rightarrow> Scheduler \<Rightarrow> u64 \<times> Scheduler) \<Rightarrow> InnerFence \<Rightarrow> Scheduler \<Rightarrow> InnerFence \<times> Scheduler" where
  "InnerFence_Queue QueueGpuFence fence s =
     (if is_stubbed fence
      then (let (tick, s') = QueueGpuFence (is_stubbed fence) s in (fence\<lparr>wait_tick := tick\<rparr>, s'))
      else (let (tick, s') = QueueGpuFence False s in (fence\<lparr>wait_tick := tick\<rparr>, s')))"

definition InnerFence_IsSignaled :: "InnerFence \<Rightarrow> Scheduler \<Rightarrow> bool" where
  "InnerFence_IsSignaled fence s =
     (if is_stubbed fence then True
      else if wait_tick fence = 0 then False
      else IsTickCompleted s (wait_tick fence))"

definition InnerFence_Wait ::
  "InnerFence \<Rightarrow> event list \<Rightarrow> Scheduler \<Rightarrow> (Scheduler \<times> event list) outcome" where
  "InnerFence_Wait fence evs s =
     (if is_stubbed fence then Done (s, evs)
      else if wait_tick fence = 0 then Done (s, evs)
      else WaitUntilTick (wait_tick fence) evs s)"

text \<open>
  The fence after it has been queued once at each scheduler state of a list, in turn.
\<close>

fun InnerFence_Queue_each ::
  "(bool \<Rightarrow> Scheduler \<Rightarrow> u64 \<times> Scheduler) \<Rightarrow> Scheduler list \<Rightarrow> InnerFence \<Rightarrow> InnerFence" where
  "InnerFence_Queue_each QueueGpuFence [] fence = fence"
| "InnerFence_Queue_each QueueGpuFence (s # ss) fence =
     InnerFence_Queue_each QueueGpuFence ss (fst (InnerFence_Queue QueueGpuFence fence s))"

text \<open>A \<open>Fence\<close> is a shared pointer to an \<open>InnerFence\<close>; \<open>None\<close> is the null pointer.\<close>

type_synonym Fence = "InnerFence option"

definition CreateFence :: "bool \<Rightarrow> Fence" where
  "CreateFence stubbed = Some (InnerFence_new stubbed)"

definition QueueFence ::
  "(bool \<Rightarrow> Scheduler \<Rightarrow> u64 \<times> Scheduler) \<Rightarrow> Fence \<Rightarrow> Scheduler \<Rightarrow> Fence \<times> Scheduler" where
  "QueueFence QueueGpuFence fence s =
     (case fence of
        None \<Rightarrow> (None, s)
      | Some f \<Rightarrow> (let (f', s') = InnerFence_Queue QueueGpuFence f s in (Some f', s')))"

definition IsFenceSignaled :: "Fence \<Rightarrow> Scheduler \<Rightarrow> bool" where
  "IsFenceSignaled fence s =
     (case fence of
        Some f \<Rightarrow> InnerFence_IsSignaled f s
      | None \<Rightarrow> True)"

definition WaitFence :: "Fence \<Rightarrow> event list \<Rightarrow> Scheduler \<Rightarrow> (Scheduler \<times> event list) outcome" where
  "WaitFence fence evs s =
     (case fence of
        None \<Rightarrow> Done (s, evs)
      | Some f \<Rightarrow> InnerFence_Wait f evs s)"

section \<open>MemoryAllocator\<close>

datatype MemoryUsage = DeviceLocal | Upload | Download | Stream

datatype VmaMemoryUsage =
    VMA_MEMORY_USAGE_AUTO
  | VMA_MEMORY_USAGE_AUTO_PREFER_DEVICE
  | VMA_MEMORY_USAGE_AUTO_PREFER_HOST

definition VK_MEMORY_PROPERTY_HOST_COHERENT_BIT :: u32 where
  "VK_MEMORY_PROPERTY_HOST_COHERENT_BIT = 0x4"
definition VMA_ALLOCATION_CREATE_MAPPED_BIT :: u32 where
  "VMA_ALLOCATION_CREATE_MAPPED_BIT = 0x4"
definition VMA_ALLOCATION_CREATE_WITHIN_BUDGET_BIT :: u32 where
  "VMA_ALLOCATION_CREATE_WITHIN_BUDGET_BIT = 0x100"
definition VMA_ALLOCATION_CREATE_HOST_ACCESS_SEQUENTIAL_WRITE_BIT :: u32 where
  "VMA_ALLOCATION_CREATE_HOST_ACCESS_SEQUENTIAL_WRITE_BIT = 0x400"
definition VMA_ALLOCATION_CREATE_HOST_ACCESS_RANDOM_BIT :: u32 where
  "VMA_ALLOCATION_CREATE_HOST_ACCESS_RANDOM_BIT = 0x800"

definition MiB_256 :: u64 where
  "MiB_256 = 256 * 1024 * 1024"

record VkMemoryType =
  propertyFlags :: u32
  heapIndex :: u32

record VkMemoryHeap =
  heap_size :: u64
  heap_flags :: u32

text \<open>
  \<open>memoryTypes\<close> and \<open>memoryHeaps\<close> are the fixed arrays of the Vulkan structure
  (\<open>VK_MAX_MEMORY_TYPES = 32\<close> and \<open>VK_MAX_MEMORY_HEAPS = 16\<close> entries).
\<close>

record VkPhysicalDeviceMemoryProperties =
  memoryTypeCount :: u32
  memoryTypes :: "VkMemoryType list"
  memoryHeapCount :: u32
  memoryHeaps :: "VkMemoryHeap list"

record Device =
  HasDebuggingToolAttached :: bool
  GetMemoryProperties :: VkPhysicalDeviceMemoryProperties

text \<open>
  The allocator's fields that the memory-type policy uses. The member
  \<open>disallowed_memory_types_for_stream\<close> is declared in the header, which is not among the
  sources; the constructor
  only ever sets bits in it, and it starts with no bit set.
\<close>

record MemoryAllocator =
  device :: Device
  disallowed_memory_types_for_stream :: u32

definition MemoryUsagePreferredVmaFlags :: "MemoryUsage \<Rightarrow> u32" where
  "MemoryUsagePreferredVmaFlags usage =
     (if usage \<noteq> DeviceLocal then VK_MEMORY_PROPERTY_HOST_COHERENT_BIT else 0)"

fun MemoryUsageVmaFlags :: "MemoryUsage \<Rightarrow> u32" where
  "MemoryUsageVmaFlags Upload =
     (VMA_ALLOCATION_CREATE_MAPPED_BIT OR VMA_ALLOCATION_CREATE_HOST_ACCESS_SEQUENTIAL_WRITE_BIT)"
| "MemoryUsageVmaFlags Stream =
     (VMA_ALLOCATION_CREATE_MAPPED_BIT OR VMA_ALLOCATION_CREATE_HOST_ACCESS_SEQUENTIAL_WRITE_BIT)"
| "MemoryUsageVmaFlags Download =
     (VMA_ALLOCATION_CREATE_MAPPED_BIT OR VMA_ALLOCATION_CREATE_HOST_ACCESS_RANDOM_BIT)"
| "MemoryUsageVmaFlags DeviceLocal = 0"

fun MemoryUsageVma :: "MemoryUsage \<Rightarrow> VmaMemoryUsage" where
  "MemoryUsageVma DeviceLocal = VMA_MEMORY_USAGE_AUTO_PREFER_DEVICE"
| "MemoryUsageVma Stream = VMA_MEMORY_USAGE_AUTO_PREFER_DEVICE"
| "MemoryUsageVma Upload = VMA_MEMORY_USAGE_AUTO_PREFER_HOST"
| "MemoryUsageVma Download = VMA_MEMORY_USAGE_AUTO_PREFER_HOST"

text \<open>Reading a fixed array: an index outside it is an error, not a value.\<close>

definition array_at :: "'a list \<Rightarrow> nat \<Rightarrow> exec_error + 'a" where
  "array_at xs i = (if i < length xs then Inr (xs ! i) else Inl (ArrayIndexOutOfBounds i))"

text \<open>
  The loop of \<open>ForEachDeviceLocalHostVisibleHeap\<close> from index \<open>i\<close> on. The callback
  updates the object it captured; here it is a function on that object, \<open>acc\<close>.
\<close>

function ForEachDeviceLocalHostVisibleHeap_loop ::
  "u32 \<Rightarrow> VkPhysicalDeviceMemoryProperties \<Rightarrow> (u32 \<Rightarrow> VkMemoryHeap \<Rightarrow> 'a \<Rightarrow> 'a) \<Rightarrow> 'a
   \<Rightarrow> exec_error + 'a" where
  "ForEachDeviceLocalHostVisibleHeap_loop i memory_props func acc =
     (if i < memoryTypeCount memory_props then
        (case array_at (memoryTypes memory_props) (unat i) of
           Inl e \<Rightarrow> Inl e
         | Inr memory_type \<Rightarrow>
             (let is_device_local =
                    (propertyFlags memory_type AND VK_MEMORY_PROPERTY_DEVICE_LOCAL_BIT \<noteq> 0);
                  is_host_visible =
                    (propertyFlags memory_type AND VK_MEMORY_PROPERTY_HOST_VISIBLE_BIT \<noteq> 0)
              in if is_device_local \<and> is_host_visible
                 then (case array_at (memoryHeaps memory_props) (unat (heapIndex memory_type)) of
                         Inl e \<Rightarrow> Inl e
                       | Inr heap \<Rightarrow>
                           ForEachDeviceLocalHostVisibleHeap_loop (i + 1) memory_props func
                             (func i heap acc))
                 else ForEachDeviceLocalHostVisibleHeap_loop (i + 1) memory_props func acc))
      else Inr acc)"
  by pat_completeness auto
termination
proof -
  have step: "((i + 1, memory_props, func, acc'), i, memory_props, func, acc)
          \<in> measure (\<lambda>(i, memory_props, func, acc). unat (memoryTypeCount memory_props) - unat i)"
    if lt: "i < memoryTypeCount memory_props"
    for i :: u32 and memory_props :: VkPhysicalDeviceMemoryProperties
      and func :: "u32 \<Rightarrow> VkMemoryHeap \<Rightarrow> 'a \<Rightarrow> 'a" and acc acc' :: 'a
  proof -
    from lt have below: "unat i < unat (memoryTypeCount memory_props)"
      by (simp add: word_less_nat_alt)
    have "unat (memoryTypeCount memory_props) < 2 ^ 32"
      using unsigned_less [of "memoryTypeCount memory_props"] by simp
    with below have "unat i + 1 < 2 ^ 32"
      by linarith
    then have "unat (i + 1) = unat i + 1"
      by (simp add: unat_word_ariths)
    with below show ?thesis
      by simp
  qed
  show ?thesis
    apply (relation "measure (\<lambda>(i, memory_props, func :: u32 \<Rightarrow> VkMemoryHeap \<Rightarrow> 'a \<Rightarrow> 'a, acc).
              unat (memoryTypeCount memory_props) - unat i)")
      apply simp
     apply (rule step, assumption)
    apply (rule step, assumption)
    done
qed

definition ForEachDeviceLocalHostVisibleHeap ::
  "Device \<Rightarrow> (u32 \<Rightarrow> VkMemoryHeap \<Rightarrow> 'a \<Rightarrow> 'a) \<Rightarrow> 'a \<Rightarrow> exec_error + 'a" where
  "ForEachDeviceLocalHostVisibleHeap dev func acc =
     ForEachDeviceLocalHostVisibleHeap_loop 0 (GetMemoryProperties dev) func acc"

text \<open>The lambda the constructor passes: it disables the type of a heap of at most 256 MiB.\<close>

definition disable_small_heap_type :: "u32 \<Rightarrow> VkMemoryHeap \<Rightarrow> u32 \<Rightarrow> u32" where
  "disable_small_heap_type type_index heap disallowed =
     (if heap_size heap \<le> MiB_256 then disallowed OR push_bit (unat type_index) 1
      else disallowed)"

definition MemoryAllocator_new :: "Device \<Rightarrow> exec_error + MemoryAllocator" where
  "MemoryAllocator_new dev =
     (if HasDebuggingToolAttached dev
      then (case ForEachDeviceLocalHostVisibleHeap dev disable_small_heap_type 0 of
              Inl e \<Rightarrow> Inl e
            | Inr disallowed \<Rightarrow>
                Inr \<lparr>device = dev, disallowed_memory_types_for_stream = disallowed\<rparr>)
      else Inr \<lparr>device = dev, disallowed_memory_types_for_stream = 0\<rparr>)"

text \<open>
  The allocation request \<open>CreateBuffer\<close> builds and hands to the allocator library, without
  the pool, the user data and the floating-point priority.
\<close>

record VmaAllocationCreateInfo =
  vma_flags :: u32
  vma_usage :: VmaMemoryUsage
  requiredFlags :: u32
  preferredFlags :: u32
  memoryTypeBits :: u32

definition CreateBuffer_alloc_ci :: "MemoryAllocator \<Rightarrow> MemoryUsage \<Rightarrow> VmaAllocationCreateInfo" where
  "CreateBuffer_alloc_ci allocator usage =
     \<lparr>vma_flags = VMA_ALLOCATION_CREATE_WITHIN_BUDGET_BIT OR MemoryUsageVmaFlags usage,
      vma_usage = MemoryUsageVma usage,
      requiredFlags = 0,
      preferredFlags = MemoryUsagePreferredVmaFlags usage,
      memoryTypeBits = (if usage = Stream
                        then NOT (disallowed_memory_types_for_stream allocator) else 0)\<rparr>"

text \<open>
  How the allocator library reads \<open>memoryTypeBits\<close>, as the comment in \<open>CreateBuffer\<close> has
  it: \<open>0\<close> means every type may be used, otherwise a type may be used when its bit is set.
\<close>

definition mask_allows :: "u32 \<Rightarrow> nat \<Rightarrow> bool" where
  "mask_allows type_bits type_index = (type_bits = 0 \<or> bit type_bits type_index)"

text \<open>
  The memory type \<open>j\<close> of a device is small, device-local and host-visible: one of the
  reported types, with both property bits set and a heap of at most 256 MiB.
\<close>

definition small_device_local_host_visible :: "VkPhysicalDeviceMemoryProperties \<Rightarrow> nat \<Rightarrow> bool" where
  "small_device_local_host_visible memory_props j =
     (j < unat (memoryTypeCount memory_props) \<and>
      propertyFlags (memoryTypes memory_props ! j) AND VK_MEMORY_PROPERTY_DEVICE_LOCAL_BIT \<noteq> 0 \<and>
      propertyFlags (memoryTypes memory_props ! j) AND VK_MEMORY_PROPERTY_HOST_VISIBLE_BIT \<noteq> 0 \<and>
      heap_size (memoryHeaps memory_props ! unat (heapIndex (memoryTypes memory_props ! j)))
        \<le> MiB_256)"

text \<open>
  A well-formed report of the driver: the two arrays have their fixed sizes, the type
  count is within the type array, and every reported type names a heap of the heap array.
\<close>

definition valid_memory_properties :: "VkPhysicalDeviceMemoryProperties \<Rightarrow> bool" where
  "valid_memory_properties memory_props =
     (length (memoryTypes memory_props) = 32 \<and> length (memoryHeaps memory_props) = 16 \<and>
      unat (memoryTypeCount memory_props) \<le> 32 \<and>
      (\<forall>j < unat (memoryTypeCount memory_props).
         unat (heapIndex (memoryTypes memory_props ! j)) < 16))"

section \<open>PresentManager: copying to the swapchain\<close>

text \<open>
  The bookkeeping of the presentation path: how often \<open>CreateSurface\<close>,
  \<open>RecreateSwapchain\<close> and \<open>CopyToSwapchainImpl\<close> have run, how many frames have been
  presented, and whether a device loss was reported.
\<close>

record PresentManager =
  surface_creations :: nat
  swapchain_recreations :: nat
  impl_calls :: nat
  presents :: nat
  loss_reported :: bool

text \<open>
  What the native side does in one run of \<open>CopyToSwapchainImpl\<close>: how many times
  \<open>AcquireNextImage\<close> asks for a recreation before it delivers an image, and the result
  carried by the exception the run ends with, if any.
\<close>

record impl_behaviour =
  acquire_recreations :: nat
  raised :: "VkResult option"

definition CreateSurface :: "PresentManager \<Rightarrow> PresentManager" where
  "CreateSurface pm = pm\<lparr>surface_creations := surface_creations pm + 1\<rparr>"

definition RecreateSwapchain :: "PresentManager \<Rightarrow> PresentManager" where
  "RecreateSwapchain pm = pm\<lparr>swapchain_recreations := swapchain_recreations pm + 1\<rparr>"

fun RecreateSwapchain_times :: "nat \<Rightarrow> PresentManager \<Rightarrow> PresentManager" where
  "RecreateSwapchain_times 0 pm = pm"
| "RecreateSwapchain_times (Suc n) pm = RecreateSwapchain_times n (RecreateSwapchain pm)"

text \<open>
  \<open>CopyToSwapchainImpl\<close>: the acquire loop recreates the swapchain as often as the native
  side asks; then the copy is recorded, submitted and presented, unless an exception ends
  the run. The environment \<open>env\<close> gives the behaviour of the native side for each run,
  counted from the first.
\<close>

definition CopyToSwapchainImpl ::
  "(nat \<Rightarrow> impl_behaviour) \<Rightarrow> PresentManager \<Rightarrow> VkResult \<times> PresentManager + PresentManager" where
  "CopyToSwapchainImpl env pm =
     (let behaviour = env (impl_calls pm);
          pm1 = RecreateSwapchain_times (acquire_recreations behaviour)
                  (pm\<lparr>impl_calls := impl_calls pm + 1\<rparr>)
      in case raised behaviour of
           None \<Rightarrow> Inr (pm1\<lparr>presents := presents pm1 + 1\<rparr>)
         | Some result \<Rightarrow> Inl (result, pm1))"

text \<open>
  \<open>CopyToSwapchain\<close>: the \<open>while (true)\<close> loop with its \<open>try\<close> and \<open>catch\<close>. \<open>None\<close> is a
  loop that never ends; \<open>Inl\<close> is the exception that leaves the function, rethrown.
\<close>

partial_function (option) CopyToSwapchain_loop ::
  "(nat \<Rightarrow> impl_behaviour) \<Rightarrow> bool \<Rightarrow> PresentManager
   \<Rightarrow> (VkResult \<times> PresentManager + PresentManager) option" where
  "CopyToSwapchain_loop env requires_recreation pm =
     (let pm1 = (if requires_recreation then RecreateSwapchain (CreateSurface pm) else pm);
          requires_recreation1 = (if requires_recreation then False else requires_recreation)
      in case CopyToSwapchainImpl env pm1 of
           Inr pm2 \<Rightarrow> Some (Inr pm2)
         | Inl (result, pm2) \<Rightarrow>
             if result = VK_ERROR_SURFACE_LOST_KHR
             then CopyToSwapchain_loop env True pm2
             else if result = VK_ERROR_OUT_OF_DATE_KHR \<or> result = VK_SUBOPTIMAL_KHR
             then CopyToSwapchain_loop env requires_recreation1 (RecreateSwapchain pm2)
             else if result = VK_ERROR_DEVICE_LOST
             then Some (Inl (result, pm2\<lparr>loss_reported := True\<rparr>))
             else Some (Inl (result, pm2)))"

definition CopyToSwapchain ::
  "(nat \<Rightarrow> impl_behaviour) \<Rightarrow> PresentManager
   \<Rightarrow> (VkResult \<times> PresentManager + PresentManager) option" where
  "CopyToSwapchain env pm = CopyToSwapchain_loop env False pm"

text \<open>
  The three conditions the \<open>catch\<close> block recovers from: the surface was lost, or the
  swapchain is out of date or suboptimal.
\<close>

definition recoverable :: "VkResult \<Rightarrow> bool" where
  "recoverable result =
     (result = VK_ERROR_SURFACE_LOST_KHR \<or> result = VK_ERROR_OUT_OF_DATE_KHR \<or>
      result = VK_SUBOPTIMAL_KHR)"

text \<open>
  Of the native side's runs \<open>k, k + 1, ..., k + n - 1\<close>: each of them ends with one of the
  three conditions; how many of them end with a lost surface; and, of the runs
  \<open>k, ..., k + n - 1\<close>, how many recreations the image acquisition asks for in all.
\<close>

fun recoverable_runs :: "(nat \<Rightarrow> impl_behaviour) \<Rightarrow> nat \<Rightarrow> nat \<Rightarrow> bool" where
  "recoverable_runs env k 0 = True"
| "recoverable_runs env k (Suc n) =
     ((case raised (env k) of None \<Rightarrow> False | Some result \<Rightarrow> recoverable result) \<and>
      recoverable_runs env (Suc k) n)"

fun surface_losses :: "(nat \<Rightarrow> impl_behaviour) \<Rightarrow> nat \<Rightarrow> nat \<Rightarrow> nat" where
  "surface_losses env k 0 = 0"
| "surface_losses env k (Suc n) =
     (if raised (env k) = Some VK_ERROR_SURFACE_LOST_KHR then 1 else 0) +
     surface_losses env (Suc k) n"

fun acquire_recreations_total :: "(nat \<Rightarrow> impl_behaviour) \<Rightarrow> nat \<Rightarrow> nat \<Rightarrow> nat" where
  "acquire_recreations_total env k 0 = 0"
| "acquire_recreations_total env k (Suc n) =
     acquire_recreations (env k) + acquire_recreations_total env (Suc k) n"

text \<open>A run that ends the retrying: it succeeds, or it raises something else.\<close>

definition ends_retrying :: "impl_behaviour \<Rightarrow> bool" where
  "ends_retrying behaviour =
     (case raised behaviour of None \<Rightarrow> True | Some result \<Rightarrow> \<not> recoverable result)"

text \<open>
  The bookkeeping after the runs \<open>k, ..., k + n\<close> of \<open>CopyToSwapchainImpl\<close>, the first \<open>n\<close>
  of which ended with one of the three conditions (\<open>k\<close> being the number of runs before,
  \<open>requires_recreation\<close> the flag the loop was entered with): one surface for every lost
  surface, one swapchain recreation for every failed run and for every request of the
  image acquisition; and how the loop ends once a run ends the retrying.
\<close>

definition state_after_runs ::
  "(nat \<Rightarrow> impl_behaviour) \<Rightarrow> bool \<Rightarrow> PresentManager \<Rightarrow> nat \<Rightarrow> PresentManager" where
  "state_after_runs env requires_recreation pm n =
     pm\<lparr>surface_creations := surface_creations pm + (if requires_recreation then 1 else 0) +
                              surface_losses env (impl_calls pm) n,
        swapchain_recreations := swapchain_recreations pm + (if requires_recreation then 1 else 0) +
                                 n + acquire_recreations_total env (impl_calls pm) (Suc n),
        impl_calls := impl_calls pm + n + 1\<rparr>"

definition conclude_run ::
  "impl_behaviour \<Rightarrow> PresentManager \<Rightarrow> VkResult \<times> PresentManager + PresentManager" where
  "conclude_run behaviour pm =
     (case raised behaviour of
        None \<Rightarrow> Inr (pm\<lparr>presents := presents pm + 1\<rparr>)
      | Some result \<Rightarrow>
          Inl (result, pm\<lparr>loss_reported := (loss_reported pm \<or> result = VK_ERROR_DEVICE_LOST)\<rparr>))"

section \<open>Concrete inputs\<close>

definition example_scheduler :: Scheduler where
  "example_scheduler = Scheduler_new (\<lambda>cmds c. length cmds < 4) True"

definition example_framebuffer :: Framebuffer where
  "example_framebuffer =
     \<lparr>fb_RenderPass = 1, fb_Handle = 2,
      fb_RenderArea = \<lparr>width = 640, height = 480\<rparr>,
      fb_NumImages = 1,
      fb_Images = Some (\<lambda>i. 7),
      fb_ImageRanges = Some (\<lambda>i. \<lparr>aspectMask = 1, baseMipLevel = 0, levelCount = 1,
                                    baseArrayLayer = 0, layerCount = 1\<rparr>)\<rparr>"

definition example_device :: Device where
  "example_device =
     \<lparr>HasDebuggingToolAttached = True,
      GetMemoryProperties =
        \<lparr>memoryTypeCount = 2,
         memoryTypes =
           \<lparr>propertyFlags = 3, heapIndex = 1\<rparr> # \<lparr>propertyFlags = 1, heapIndex = 0\<rparr> #
           replicate 30 \<lparr>propertyFlags = 0, heapIndex = 0\<rparr>,
         memoryHeapCount = 2,
         memoryHeaps =
           \<lparr>heap_size = 0x200000000, heap_flags = 1\<rparr> # \<lparr>heap_size = 0x10000000, heap_flags = 1\<rparr> #
           replicate 14 \<lparr>heap_size = 0, heap_flags = 0\<rparr>\<rparr>\<rparr>"

definition example_present_manager :: PresentManager where
  "example_present_manager =
     \<lparr>surface_creations = 0, swapchain_recreations = 0, impl_calls = 0, presents = 0,
      loss_reported = False\<rparr>"





text \<open>
  Five closures recorded into chunks that hold four commands, with a turn of the worker
  thread in between, and the events that pass while \<open>Finish\<close> waits.
\<close>

definition example_records :: "op list" where
  "example_records =
     [OpRecord 10, OpRecord 11, OpRecord 12, OpEnv (WorkerRuns VK_SUCCESS), OpRecord 13,
      OpRecord 14]"

definition example_events :: "event list" where
  "example_events = [WorkerRuns VK_SUCCESS, WorkerRuns VK_SUCCESS, GpuRetires]"

section \<open>Properties of the fences\<close>

text \<open>
  C10. \<open>FenceManager::IsFenceSignaled\<close> with a null fence returns true; with a fence that
  is not null it returns exactly what that fence's own \<open>IsSignaled\<close> returns.
\<close>

theorem IsFenceSignaled_null_or_delegates:
  "IsFenceSignaled None s = True \<and>
   IsFenceSignaled (Some fence) s = InnerFence_IsSignaled fence s"
  by (simp add: IsFenceSignaled_def)

lemma InnerFence_Queue_is_stubbed:
  "is_stubbed (fst (InnerFence_Queue QueueGpuFence fence s)) = is_stubbed fence"
  by (simp add: InnerFence_Queue_def split: prod.splits)

lemma InnerFence_Queue_each_is_stubbed:
  "is_stubbed (InnerFence_Queue_each QueueGpuFence ss fence) = is_stubbed fence"
  by (induction ss arbitrary: fence) (simp_all add: InnerFence_Queue_is_stubbed)

text \<open>
  C4. A fence constructed with \<open>is_stubbed = true\<close> reports itself signaled at every point
  of its life, before \<open>Queue\<close> and after any number of \<open>Queue\<close> calls, whatever the
  scheduler's state and whatever tick \<open>QueueGpuFence\<close> returned; and its \<open>Wait\<close> returns at
  once: no event of the other threads passes, and the scheduler is left as it was, so no
  tick wait was made.
\<close>

theorem stubbed_fence_signaled_and_never_waits:
  "InnerFence_IsSignaled (InnerFence_Queue_each QueueGpuFence ss (InnerFence_new True)) s = True \<and>
   InnerFence_Wait (InnerFence_Queue_each QueueGpuFence ss (InnerFence_new True)) evs s
     = Done (s, evs)"
  by (simp add: InnerFence_IsSignaled_def InnerFence_Wait_def InnerFence_Queue_each_is_stubbed
      InnerFence_new_def)

text \<open>
  C5, as the claim states it, does not hold: \<open>Wait\<close> on a fence that is not stubbed and
  was never queued is no assertion failure. With a GPU event still to come, the call
  returns normally at once and leaves the scheduler untouched: the condition is ignored.
\<close>

theorem unqueued_fence_Wait_is_ignored_example:
  "InnerFence_Wait (InnerFence_new False) [GpuRetires] example_scheduler
     = Done (example_scheduler, [GpuRetires])"
  by (simp add: InnerFence_Wait_def InnerFence_new_def)

text \<open>
  C5, amended. \<open>Wait\<close> on a fence that is not stubbed and was never queued (its
  \<open>wait_tick\<close> still zero) returns at once without waiting for any tick and without raising
  an error; nothing is retried.
\<close>

theorem unqueued_fence_Wait_returns_at_once:
  "InnerFence_Wait (InnerFence_new False) evs s = Done (s, evs)"
  by (simp add: InnerFence_Wait_def InnerFence_new_def)

section \<open>Properties of the state cache\<close>

text \<open>
  C6, as the claim states it, does not hold for every pipeline pointer: when the pipeline
  is the one already cached, the first of two calls in a row returns false as well. Here
  pipeline 5 was bound by an earlier call.
\<close>

theorem UpdateGraphicsPipeline_cached_pipeline_example:
  "fst (UpdateGraphicsPipeline 5 (snd (UpdateGraphicsPipeline 5 example_scheduler))) = False"
  by (simp add: UpdateGraphicsPipeline_def)

text \<open>
  C6, amended. Of two calls of \<open>UpdateGraphicsPipeline(P)\<close> in immediate succession, the
  first returns true exactly when \<open>P\<close> is not the pipeline cached before the call, and the
  second returns false.
\<close>

theorem UpdateGraphicsPipeline_twice:
  "fst (UpdateGraphicsPipeline P s) = (graphics_pipeline (state s) \<noteq> P) \<and>
   fst (UpdateGraphicsPipeline P (snd (UpdateGraphicsPipeline P s))) = False"
  by (simp add: UpdateGraphicsPipeline_def)

subsection \<open>What recording adds to the pending commands\<close>

lemma AcquireNewChunk_fields [simp]:
  "work_queue (AcquireNewChunk s) = work_queue s"
  "state (AcquireNewChunk s) = state s"
  "master_semaphore (AcquireNewChunk s) = master_semaphore s"
  "stamps (AcquireNewChunk s) = stamps s"
  "chunk_fits (AcquireNewChunk s) = chunk_fits s"
  "num_renderpass_images (AcquireNewChunk s) = num_renderpass_images s"
  "renderpass_images (AcquireNewChunk s) = renderpass_images s"
  "renderpass_image_ranges (AcquireNewChunk s) = renderpass_image_ranges s"
  "query_cache (AcquireNewChunk s) = query_cache s"
  by (simp_all add: AcquireNewChunk_def)

lemma AcquireNewChunk_reset:
  "reserve_is_reset s \<Longrightarrow> commands (chunk (AcquireNewChunk s)) = [] \<and> reserve_is_reset (AcquireNewChunk s)"
  unfolding reserve_is_reset_def AcquireNewChunk_def
  by (cases "chunk_reserve s" rule: rev_cases) (simp_all add: list_all_iff)

lemma DispatchWork_fields [simp]:
  "state (DispatchWork s) = state s"
  "master_semaphore (DispatchWork s) = master_semaphore s"
  "stamps (DispatchWork s) = stamps s"
  "chunk_fits (DispatchWork s) = chunk_fits s"
  "num_renderpass_images (DispatchWork s) = num_renderpass_images s"
  "renderpass_images (DispatchWork s) = renderpass_images s"
  "renderpass_image_ranges (DispatchWork s) = renderpass_image_ranges s"
  "query_cache (DispatchWork s) = query_cache s"
  by (simp_all add: DispatchWork_def)

lemma DispatchWork_pending:
  assumes "reserve_is_reset s"
  shows "pending_commands (DispatchWork s) = pending_commands s" and "reserve_is_reset (DispatchWork s)"
proof -
  have r: "reserve_is_reset (s\<lparr>work_queue := work_queue s @ [chunk s]\<rparr>)"
    using assms by (simp add: reserve_is_reset_def)
  show "pending_commands (DispatchWork s) = pending_commands s"
    using AcquireNewChunk_reset [OF r] by (simp add: DispatchWork_def pending_commands_def)
  show "reserve_is_reset (DispatchWork s)"
    using AcquireNewChunk_reset [OF r] assms by (simp add: DispatchWork_def)
qed

lemma Record_fields [simp]:
  "state (Record c s) = state s"
  "master_semaphore (Record c s) = master_semaphore s"
  "stamps (Record c s) = stamps s"
  "chunk_fits (Record c s) = chunk_fits s"
  "num_renderpass_images (Record c s) = num_renderpass_images s"
  "renderpass_images (Record c s) = renderpass_images s"
  "renderpass_image_ranges (Record c s) = renderpass_image_ranges s"
  "query_cache (Record c s) = query_cache s"
  by (simp_all add: Record_def Let_def)

lemma Record_pending:
  assumes "reserve_is_reset s"
  shows "pending_commands (Record c s) = pending_commands s @ [c]" and "reserve_is_reset (Record c s)"
proof -
  let ?s1 = "if chunk_fits s (commands (chunk s)) c then s else DispatchWork s"
  have p: "pending_commands ?s1 = pending_commands s" and r: "reserve_is_reset ?s1"
    using DispatchWork_pending [OF assms] assms by auto
  have "pending_commands (Record c s) = pending_commands ?s1 @ [c]"
    by (simp add: Record_def Let_def pending_commands_def)
  with p show "pending_commands (Record c s) = pending_commands s @ [c]" by simp
  have "chunk_reserve (Record c s) = chunk_reserve ?s1"
    by (simp add: Record_def Let_def)
  with r show "reserve_is_reset (Record c s)" by (simp add: reserve_is_reset_def)
qed

lemma EndRenderPass_pending:
  assumes "reserve_is_reset s"
  shows "pending_commands (EndRenderPass s) = pending_commands s @
           (if renderpass (state s) = 0 then []
            else [EndRenderPassCmd (num_renderpass_images s) (renderpass_images s) (renderpass_image_ranges s)])"
    and "reserve_is_reset (EndRenderPass s)"
  using Record_pending [OF assms] assms
  by (simp_all add: EndRenderPass_def Let_def pending_commands_def reserve_is_reset_def)

lemma RequestRenderpass_matches: "renderpass_matches fb (RequestRenderpass fb s)"
  by (simp add: RequestRenderpass_def renderpass_matches_def Let_def)

lemma RequestRenderpass_pending:
  assumes "reserve_is_reset s"
  shows "pending_commands (RequestRenderpass fb s) = pending_commands s @
           (if renderpass_matches fb s then []
            else (if renderpass (state s) = 0 then []
                  else [EndRenderPassCmd (num_renderpass_images s) (renderpass_images s) (renderpass_image_ranges s)])
                 @ [BeginRenderPassCmd (fb_RenderPass fb) (fb_Handle fb) (fb_RenderArea fb)])"
proof (cases "renderpass_matches fb s")
  case True
  then show ?thesis by (simp add: RequestRenderpass_def)
next
  case False
  let ?s1 = "EndRenderPass s"
  let ?s2 = "?s1\<lparr>state := (state ?s1)\<lparr>renderpass := fb_RenderPass fb,
                                          framebuffer := fb_Handle fb,
                                          render_area := fb_RenderArea fb\<rparr>\<rparr>"
  have r2: "reserve_is_reset ?s2"
    using EndRenderPass_pending(2) [OF assms] by (simp add: reserve_is_reset_def)
  have p2: "pending_commands ?s2 = pending_commands ?s1"
    by (simp add: pending_commands_def)
  have "pending_commands (RequestRenderpass fb s) =
        pending_commands (Record (BeginRenderPassCmd (fb_RenderPass fb) (fb_Handle fb) (fb_RenderArea fb)) ?s2)"
    using False by (simp add: RequestRenderpass_def Let_def pending_commands_def)
  then show ?thesis
    using False Record_pending(1) [OF r2] p2 EndRenderPass_pending(1) [OF assms] by simp
qed

lemma Scheduler_new_reserve_is_reset: "reserve_is_reset (Scheduler_new fits has_query_cache)"
  by (simp add: Scheduler_new_def AcquireNewChunk_def AllocateWorkerCommandBuffer_def reserve_is_reset_def)


text \<open>
  C7, as the claim states it, does not hold for every state: when the render pass of the
  framebuffer is already the active one, two calls in a row record no begin command at
  all. Here the framebuffer was requested once before; the two further calls leave the
  number of begin commands at one.
\<close>

theorem RequestRenderpass_active_pass_example:
  "begin_render_pass_count
     (RequestRenderpass example_framebuffer
        (RequestRenderpass example_framebuffer
           (RequestRenderpass example_framebuffer example_scheduler)))
   = begin_render_pass_count (RequestRenderpass example_framebuffer example_scheduler)"
  by (simp add: RequestRenderpass_def renderpass_matches_def EndRenderPass_def Record_def Let_def
      example_scheduler_def Scheduler_new_def AcquireNewChunk_def AllocateWorkerCommandBuffer_def
      example_framebuffer_def begin_render_pass_count_def pending_commands_def)

text \<open>
  C7, amended. Two calls of \<open>RequestRenderpass\<close> in a row with the same framebuffer record
  exactly one begin-render-pass command when the cached render pass, framebuffer handle
  and render area do not already match the framebuffer's, and none when they do; in both
  cases the second call finds the cached state matching and changes nothing.
\<close>

theorem RequestRenderpass_twice:
  assumes "reserve_is_reset s"
  shows "RequestRenderpass fb (RequestRenderpass fb s) = RequestRenderpass fb s \<and>
     begin_render_pass_count (RequestRenderpass fb (RequestRenderpass fb s)) =
       begin_render_pass_count s + (if renderpass_matches fb s then 0 else 1)"
proof -
  have idem: "RequestRenderpass fb (RequestRenderpass fb s) = RequestRenderpass fb s"
    using RequestRenderpass_matches [of fb s]
    by (simp add: RequestRenderpass_def [of fb "RequestRenderpass fb s"])
  show ?thesis
    unfolding idem using RequestRenderpass_pending [OF assms, of fb]
    by (simp add: begin_render_pass_count_def)
qed

theorem RequestRenderpass_twice_witness:
  "reserve_is_reset example_scheduler \<and>
   RequestRenderpass example_framebuffer (RequestRenderpass example_framebuffer example_scheduler)
     = RequestRenderpass example_framebuffer example_scheduler \<and>
   begin_render_pass_count
     (RequestRenderpass example_framebuffer (RequestRenderpass example_framebuffer example_scheduler))
     = 1"
proof -
  have h: "reserve_is_reset example_scheduler"
    by (simp add: example_scheduler_def Scheduler_new_reserve_is_reset)
  have differs: "\<not> renderpass_matches example_framebuffer example_scheduler"
    by (simp add: renderpass_matches_def example_framebuffer_def example_scheduler_def
        Scheduler_new_def AcquireNewChunk_def AllocateWorkerCommandBuffer_def)
  have none: "begin_render_pass_count example_scheduler = 0"
    by (simp add: begin_render_pass_count_def pending_commands_def example_scheduler_def
        Scheduler_new_def AcquireNewChunk_def AllocateWorkerCommandBuffer_def)
  note twice = RequestRenderpass_twice [OF h, of example_framebuffer]
  have "begin_render_pass_count
          (RequestRenderpass example_framebuffer
             (RequestRenderpass example_framebuffer example_scheduler)) = 1"
    using twice [THEN conjunct2] differs none by simp
  with h twice [THEN conjunct1] show ?thesis
    by blast
qed

section \<open>Properties of the closure recorded by EndRenderPass\<close>

lemma unat_succ_below: "(i::u32) < c \<Longrightarrow> unat (i + 1) = unat i + 1"
proof -
  assume "i < c"
  then have below: "unat i < unat c" by (simp add: word_less_nat_alt)
  have "unat c < 2 ^ 32" using unsigned_less [of c] by simp
  with below have "unat i + 1 < 2 ^ 32" by linarith
  then show ?thesis by (simp add: unat_word_ariths)
qed

lemma barrier_loop_result:
  assumes "unat c \<le> length bs" and "i \<le> c"
  shows "barrier_loop i c (Some imgs) (Some rs) bs =
         Inr (map (\<lambda>j. if unat i \<le> j \<and> j < unat c then Some (make_barrier (imgs j) (rs j)) else bs ! j)
                [0..<length bs])"
  using assms
proof (induction "unat c - unat i" arbitrary: i bs)
  case 0
  then have "\<not> i < c" by (simp add: word_less_nat_alt)
  moreover have "(\<lambda>j. if unat i \<le> j \<and> j < unat c then Some (make_barrier (imgs j) (rs j)) else bs ! j) = (\<lambda>j. bs ! j)"
    using 0 by (intro ext) auto
  ultimately show ?case
    by (simp add: map_nth)
next
  case (Suc n)
  then have lt: "i < c" by (simp add: word_less_nat_alt)
  then have ilt: "unat i < unat c" by (simp add: word_less_nat_alt)
  have succ: "unat (i + 1) = unat i + 1" using lt by (rule unat_succ_below)
  let ?bs = "bs[unat i := Some (make_barrier (imgs (unat i)) (rs (unat i)))]"
  have le: "i + 1 \<le> c" using ilt succ by (simp add: word_le_nat_alt)
  have n: "n = unat c - unat (i + 1)" using Suc.hyps(2) succ by simp
  have len: "unat c \<le> length ?bs" using Suc.prems by simp
  have step: "barrier_loop i c (Some imgs) (Some rs) bs = barrier_loop (i + 1) c (Some imgs) (Some rs) ?bs"
    using lt ilt Suc.prems(1) by (subst barrier_loop.simps) simp
  have "barrier_loop (i + 1) c (Some imgs) (Some rs) ?bs =
        Inr (map (\<lambda>j. if unat (i + 1) \<le> j \<and> j < unat c then Some (make_barrier (imgs j) (rs j)) else ?bs ! j)
                [0..<length ?bs])"
    by (rule Suc.hyps(1) [OF n len le])
  also have "map (\<lambda>j. if unat (i + 1) \<le> j \<and> j < unat c then Some (make_barrier (imgs j) (rs j)) else ?bs ! j)
                [0..<length ?bs] =
             map (\<lambda>j. if unat i \<le> j \<and> j < unat c then Some (make_barrier (imgs j) (rs j)) else bs ! j)
                [0..<length bs]"
    using ilt Suc.prems(1) succ by (auto simp: nth_list_update)
  finally show ?case using step by simp
qed

lemma barrier_count_of_min: "unat (barrier_count_of n) = min (unat n) MAX_BARRIERS"
  by (simp add: barrier_count_of_def MAX_BARRIERS_def)

lemma barrier_loop_null_ranges:
  "barrier_loop 0 c images None bs = (if 0 < c then Inl NullPointerRead else Inr bs)"
  by (subst barrier_loop.simps) simp

lemma barrier_loop_null_images:
  "barrier_loop 0 c None (Some rs) bs = (if 0 < c then Inl NullPointerRead else Inr bs)"
  by (subst barrier_loop.simps) simp

lemma span_written:
  "n \<le> m \<Longrightarrow> take n (map (\<lambda>j. if j < n then f j else g j) [0..<m]) = map f [0..<n]"
  by (rule nth_equalityI) auto

text \<open>
  C8. For every number of attachments \<open>num_images\<close>, the closure recorded by
  \<open>EndRenderPass\<close> uses \<open>barrier_count = min(num_images, 9)\<close>; no store into the on-stack
  array of 9 barriers falls outside it, whatever the two captured pointers are; with both
  pointers valid the loop writes exactly the first \<open>barrier_count\<close> slots and leaves the
  others unwritten, the array keeping its 9 slots; and the closure hands exactly those
  \<open>barrier_count\<close> barriers, in attachment order, to one pipeline-barrier call after the
  end of the render pass.
\<close>

theorem EndRenderPass_barriers_clamped:
  "unat (barrier_count_of num_images) = min (unat num_images) MAX_BARRIERS \<and>
   (\<forall>k. barrier_loop 0 (barrier_count_of num_images) images ranges (replicate MAX_BARRIERS None)
          \<noteq> Inl (ArrayIndexOutOfBounds k)) \<and>
   barrier_loop 0 (barrier_count_of num_images) (Some imgs) (Some rs) (replicate MAX_BARRIERS None) =
     Inr (map (\<lambda>j. if j < min (unat num_images) MAX_BARRIERS
                    then Some (make_barrier (imgs j) (rs j)) else None) [0..<MAX_BARRIERS]) \<and>
   EndRenderPass_closure num_images (Some imgs) (Some rs) cmdbuf =
     Inr (cmdbuf @
          [CallEndRenderPass,
           CallPipelineBarrier
             (VK_PIPELINE_STAGE_COLOR_ATTACHMENT_OUTPUT_BIT OR VK_PIPELINE_STAGE_LATE_FRAGMENT_TESTS_BIT)
             VK_PIPELINE_STAGE_ALL_COMMANDS_BIT
             (map (\<lambda>j. Some (make_barrier (imgs j) (rs j))) [0..<min (unat num_images) MAX_BARRIERS])])"
proof -
  let ?c = "barrier_count_of num_images"
  let ?bs = "replicate MAX_BARRIERS (None :: VkImageMemoryBarrier option)"
  have cnt: "unat ?c = min (unat num_images) MAX_BARRIERS" by (rule barrier_count_of_min)
  have len: "unat ?c \<le> length ?bs" using cnt by simp
  have res: "barrier_loop 0 ?c (Some imgs') (Some rs') ?bs =
      Inr (map (\<lambda>j. if unat (0::u32) \<le> j \<and> j < unat ?c then Some (make_barrier (imgs' j) (rs' j)) else ?bs ! j)
             [0..<length ?bs])" for imgs' rs'
    by (rule barrier_loop_result [OF len]) simp
  have no_oob: "barrier_loop 0 ?c images ranges ?bs \<noteq> Inl (ArrayIndexOutOfBounds k)" for k
  proof (cases ranges)
    case None
    then show ?thesis by (simp add: barrier_loop_null_ranges)
  next
    case (Some rs')
    show ?thesis
    proof (cases images)
      case None
      then show ?thesis using Some by (simp add: barrier_loop_null_images)
    next
      case (Some imgs')
      then show ?thesis using \<open>ranges = Some rs'\<close> res [of imgs' rs'] by simp
    qed
  qed
  have bound: "unat ?c \<le> length ?bs" using cnt by simp
  let ?final = "map (\<lambda>j. if unat (0::u32) \<le> j \<and> j < unat ?c then Some (make_barrier (imgs j) (rs j)) else ?bs ! j)
             [0..<length ?bs]"
  have span: "take (unat ?c) ?final = map (\<lambda>j. Some (make_barrier (imgs j) (rs j))) [0..<unat ?c]"
    by (rule nth_equalityI) (use bound in auto)
  have closure: "EndRenderPass_closure num_images (Some imgs) (Some rs) cmdbuf =
     Inr (cmdbuf @
          [CallEndRenderPass,
           CallPipelineBarrier
             (VK_PIPELINE_STAGE_COLOR_ATTACHMENT_OUTPUT_BIT OR VK_PIPELINE_STAGE_LATE_FRAGMENT_TESTS_BIT)
             VK_PIPELINE_STAGE_ALL_COMMANDS_BIT
             (map (\<lambda>j. Some (make_barrier (imgs j) (rs j))) [0..<unat ?c])])"
    unfolding EndRenderPass_closure_def Let_def res sum.case span by (rule refl)
  have slots: "?final = map (\<lambda>j. if j < min (unat num_images) MAX_BARRIERS
                    then Some (make_barrier (imgs j) (rs j)) else None) [0..<MAX_BARRIERS]"
    unfolding cnt [symmetric] by (rule nth_equalityI) auto
  show ?thesis
    by (intro conjI allI)
      (rule cnt, rule no_oob, rule res [of imgs rs, unfolded slots], rule closure [unfolded cnt])
qed

section \<open>Properties of the memory-type policy\<close>

lemma bit_disable_small_heap_type:
  "bit (disable_small_heap_type i heap acc) j \<longleftrightarrow>
     bit acc j \<or> (heap_size heap \<le> MiB_256 \<and> j = unat i \<and> j < 32)"
  by (auto simp: disable_small_heap_type_def bit_or_iff bit_exp_iff possible_bit_word)

lemma ForEachDeviceLocalHostVisibleHeap_loop_bits:
  assumes "valid_memory_properties mp" and "i \<le> memoryTypeCount mp"
  shows "\<exists>m. ForEachDeviceLocalHostVisibleHeap_loop i mp disable_small_heap_type acc = Inr m \<and>
             (\<forall>j. bit m j \<longleftrightarrow> bit acc j \<or> (unat i \<le> j \<and> small_device_local_host_visible mp j))"
  using assms(2)
proof (induction "unat (memoryTypeCount mp) - unat i" arbitrary: i acc)
  case 0
  then have "\<not> i < memoryTypeCount mp" by (simp add: word_less_nat_alt)
  moreover have "\<not> (unat i \<le> j \<and> small_device_local_host_visible mp j)" for j
    using 0 by (auto simp: small_device_local_host_visible_def)
  ultimately show ?case
    by (subst ForEachDeviceLocalHostVisibleHeap_loop.simps) auto
next
  case (Suc n)
  then have lt: "i < memoryTypeCount mp" by (simp add: word_less_nat_alt)
  then have ilt: "unat i < unat (memoryTypeCount mp)" by (simp add: word_less_nat_alt)
  have succ: "unat (i + 1) = unat i + 1" using lt by (rule unat_succ_below)
  have le: "i + 1 \<le> memoryTypeCount mp" using ilt succ by (simp add: word_le_nat_alt)
  have n: "n = unat (memoryTypeCount mp) - unat (i + 1)" using Suc.hyps(2) succ by simp
  have i32: "unat i < 32" and inrange: "unat i < length (memoryTypes mp)"
    and heap: "unat (heapIndex (memoryTypes mp ! unat i)) < length (memoryHeaps mp)"
    using assms(1) ilt by (auto simp: valid_memory_properties_def)
  let ?ty = "memoryTypes mp ! unat i"
  let ?heap = "memoryHeaps mp ! unat (heapIndex ?ty)"
  let ?dlhv = "propertyFlags ?ty AND VK_MEMORY_PROPERTY_DEVICE_LOCAL_BIT \<noteq> 0 \<and>
               propertyFlags ?ty AND VK_MEMORY_PROPERTY_HOST_VISIBLE_BIT \<noteq> 0"
  let ?acc = "if ?dlhv then disable_small_heap_type i ?heap acc else acc"
  have step: "ForEachDeviceLocalHostVisibleHeap_loop i mp disable_small_heap_type acc =
              ForEachDeviceLocalHostVisibleHeap_loop (i + 1) mp disable_small_heap_type ?acc"
    using lt inrange heap
    by (subst ForEachDeviceLocalHostVisibleHeap_loop.simps) (simp add: array_at_def Let_def)
  obtain m where m: "ForEachDeviceLocalHostVisibleHeap_loop (i + 1) mp disable_small_heap_type ?acc = Inr m"
    and bits: "\<And>j. bit m j \<longleftrightarrow> bit ?acc j \<or> (unat (i + 1) \<le> j \<and> small_device_local_host_visible mp j)"
    using Suc.hyps(1) [OF n le, of ?acc] by blast
  have here: "bit ?acc j \<longleftrightarrow> bit acc j \<or> (j = unat i \<and> small_device_local_host_visible mp j)" for j
    using ilt i32 by (auto simp: bit_disable_small_heap_type small_device_local_host_visible_def)
  have "bit m j \<longleftrightarrow> bit acc j \<or> (unat i \<le> j \<and> small_device_local_host_visible mp j)" for j
    unfolding bits here succ by auto
  with m step show ?case by simp
qed

text \<open>
  The bits of the mask. For a device with a well-formed memory report the constructor
  succeeds, and in the request \<open>CreateBuffer\<close> builds for usage \<open>Stream\<close> the bit of a memory
  type is cleared exactly when a debugging tool was attached at construction and the type
  is device-local, host-visible and on a heap of at most 256 MiB. For every other usage
  the mask is \<open>0\<close>, which the allocator library reads as every type allowed.
\<close>

lemma CreateBuffer_memory_type_bits:
  assumes "valid_memory_properties (GetMemoryProperties dev)"
  shows "\<exists>allocator. MemoryAllocator_new dev = Inr allocator \<and>
     (\<forall>j < 32. bit (memoryTypeBits (CreateBuffer_alloc_ci allocator Stream)) j \<longleftrightarrow>
         \<not> (HasDebuggingToolAttached dev \<and>
            small_device_local_host_visible (GetMemoryProperties dev) j)) \<and>
     (\<forall>usage. usage \<noteq> Stream \<longrightarrow>
         memoryTypeBits (CreateBuffer_alloc_ci allocator usage) = 0 \<and>
         (\<forall>j. mask_allows (memoryTypeBits (CreateBuffer_alloc_ci allocator usage)) j))"
proof (cases "HasDebuggingToolAttached dev")
  case True
  obtain m where m: "ForEachDeviceLocalHostVisibleHeap_loop 0 (GetMemoryProperties dev) disable_small_heap_type 0 = Inr m"
    and bits: "\<And>j. bit m j \<longleftrightarrow> bit (0::u32) j \<or> (unat (0::u32) \<le> j \<and> small_device_local_host_visible (GetMemoryProperties dev) j)"
    using ForEachDeviceLocalHostVisibleHeap_loop_bits [OF assms, of 0 0] by auto
  have new: "MemoryAllocator_new dev = Inr \<lparr>device = dev, disallowed_memory_types_for_stream = m\<rparr>"
    using True m by (simp add: MemoryAllocator_new_def ForEachDeviceLocalHostVisibleHeap_def)
  show ?thesis
    unfolding new using True bits
    by (simp add: CreateBuffer_alloc_ci_def mask_allows_def bit_not_iff)
next
  case False
  then have new: "MemoryAllocator_new dev = Inr \<lparr>device = dev, disallowed_memory_types_for_stream = 0\<rparr>"
    by (simp add: MemoryAllocator_new_def)
  show ?thesis
    unfolding new using False
    by (simp add: CreateBuffer_alloc_ci_def mask_allows_def bit_not_iff)
qed




section \<open>Properties of the copy to the swapchain\<close>

lemma RecreateSwapchain_times_eq:
  "RecreateSwapchain_times m pm = pm\<lparr>swapchain_recreations := swapchain_recreations pm + m\<rparr>"
  by (induction m arbitrary: pm) (simp_all add: RecreateSwapchain_def)

lemma CopyToSwapchain_loop_runs:
  assumes "recoverable_runs env (impl_calls pm) n"
    and "ends_retrying (env (impl_calls pm + n))"
  shows "CopyToSwapchain_loop env rr pm =
         Some (conclude_run (env (impl_calls pm + n)) (state_after_runs env rr pm n))"
  using assms
proof (induction n arbitrary: pm rr)
  case 0
  let ?pm1 = "if rr then RecreateSwapchain (CreateSurface pm) else pm"
  have k: "impl_calls ?pm1 = impl_calls pm"
    by (simp add: RecreateSwapchain_def CreateSurface_def)
  show ?case
  proof (cases "raised (env (impl_calls pm))")
    case None
    then show ?thesis
      by (subst CopyToSwapchain_loop.simps)
        (simp add: Let_def CopyToSwapchainImpl_def k RecreateSwapchain_times_eq conclude_run_def
          state_after_runs_def RecreateSwapchain_def CreateSurface_def)
  next
    case (Some r)
    then have "\<not> recoverable r" using "0.prems"(2) by (simp add: ends_retrying_def)
    then show ?thesis
      using Some
      by (subst CopyToSwapchain_loop.simps)
        (auto simp: Let_def CopyToSwapchainImpl_def k RecreateSwapchain_times_eq conclude_run_def
          state_after_runs_def RecreateSwapchain_def CreateSurface_def recoverable_def)
  qed
next
  case (Suc n)
  let ?k = "impl_calls pm"
  let ?pm1 = "if rr then RecreateSwapchain (CreateSurface pm) else pm"
  have k: "impl_calls ?pm1 = ?k"
    by (simp add: RecreateSwapchain_def CreateSurface_def)
  from Suc.prems(1) obtain r where r: "raised (env ?k) = Some r" and rec: "recoverable r"
    and rest: "recoverable_runs env (Suc ?k) n"
    by (auto split: option.splits)
  let ?pm2 = "RecreateSwapchain_times (acquire_recreations (env ?k)) (?pm1\<lparr>impl_calls := ?k + 1\<rparr>)"
  have impl: "CopyToSwapchainImpl env ?pm1 = Inl (r, ?pm2)"
    using r by (simp add: CopyToSwapchainImpl_def Let_def k)
  have k2: "impl_calls ?pm2 = Suc ?k"
    by (simp add: RecreateSwapchain_times_eq k)
  have "ends": "ends_retrying (env (Suc ?k + n))" using Suc.prems(2) by simp
  show ?case
  proof (cases "r = VK_ERROR_SURFACE_LOST_KHR")
    case True
    have step: "CopyToSwapchain_loop env rr pm = CopyToSwapchain_loop env True ?pm2"
      using impl True by (subst CopyToSwapchain_loop.simps) (simp add: Let_def)
    have rest2: "recoverable_runs env (impl_calls ?pm2) n" unfolding k2 by (rule rest)
    have ends2: "ends_retrying (env (impl_calls ?pm2 + n))" unfolding k2 by (rule "ends")
    have e: "env (impl_calls ?pm2 + n) = env (impl_calls pm + Suc n)" unfolding k2 by simp
    have a: "state_after_runs env True ?pm2 n = state_after_runs env rr pm (Suc n)"
      using r True
      by (simp add: state_after_runs_def RecreateSwapchain_times_eq RecreateSwapchain_def CreateSurface_def)
    have "CopyToSwapchain_loop env True ?pm2 =
          Some (conclude_run (env (impl_calls ?pm2 + n)) (state_after_runs env True ?pm2 n))"
      by (rule Suc.IH [OF rest2 ends2])
    then show ?thesis unfolding step e a .
  next
    case False
    then have ood: "r = VK_ERROR_OUT_OF_DATE_KHR \<or> r = VK_SUBOPTIMAL_KHR"
      using rec by (simp add: recoverable_def)
    let ?pm3 = "RecreateSwapchain ?pm2"
    have k3: "impl_calls ?pm3 = Suc ?k" using k2 by (simp add: RecreateSwapchain_def)
    have step: "CopyToSwapchain_loop env rr pm = CopyToSwapchain_loop env False ?pm3"
      using impl False ood by (subst CopyToSwapchain_loop.simps) (auto simp: Let_def)
    have rest3: "recoverable_runs env (impl_calls ?pm3) n" unfolding k3 by (rule rest)
    have ends3: "ends_retrying (env (impl_calls ?pm3 + n))" unfolding k3 by (rule "ends")
    have e: "env (impl_calls ?pm3 + n) = env (impl_calls pm + Suc n)" unfolding k3 by simp
    have a: "state_after_runs env False ?pm3 n = state_after_runs env rr pm (Suc n)"
      using r False
      by (simp add: state_after_runs_def RecreateSwapchain_times_eq RecreateSwapchain_def CreateSurface_def)
    have "CopyToSwapchain_loop env False ?pm3 =
          Some (conclude_run (env (impl_calls ?pm3 + n)) (state_after_runs env False ?pm3 n))"
      by (rule Suc.IH [OF rest3 ends3])
    then show ?thesis unfolding step e a .
  qed
qed




text \<open>
  The recreations the image acquisition asks for inside \<open>CopyToSwapchainImpl\<close> count as
  well: one out-of-date run and one request in each of the two runs make three.
\<close>

lemma CopyToSwapchain_acquire_recreations_example:
  "CopyToSwapchain (\<lambda>k. \<lparr>acquire_recreations = 1, raised = (if k = 0 then Some VK_ERROR_OUT_OF_DATE_KHR else None)\<rparr>)
      example_present_manager =
     Some (Inr \<lparr>surface_creations = 0, swapchain_recreations = 3, impl_calls = 2, presents = 1,
                loss_reported = False\<rparr>)"
proof -
  let ?env = "\<lambda>k. \<lparr>acquire_recreations = 1, raised = (if k = 0 then Some VK_ERROR_OUT_OF_DATE_KHR else None)\<rparr>"
  have runs: "recoverable_runs ?env (impl_calls example_present_manager) 1"
    by (simp add: example_present_manager_def recoverable_def)
  have "ends": "ends_retrying (?env (impl_calls example_present_manager + 1))"
    by (simp add: example_present_manager_def ends_retrying_def)
  show ?thesis
    unfolding CopyToSwapchain_def CopyToSwapchain_loop_runs [OF runs "ends"]
    by (simp add: conclude_run_def state_after_runs_def example_present_manager_def)
qed



section \<open>Properties of runs: ticks and the order of execution\<close>

lemma submit_ticks_append [simp]: "submit_ticks (a @ b) = submit_ticks a @ submit_ticks b"
  by (induction a rule: submit_ticks.induct) simp_all

lemma closure_stamps_append [simp]: "closure_stamps (a @ b) = closure_stamps a @ closure_stamps b"
  by (induction a rule: closure_stamps.induct) simp_all

lemma MarkSubmit_fields [simp]:
  "state (MarkSubmit s) = state s"
  "master_semaphore (MarkSubmit s) = master_semaphore s"
  "stamps (MarkSubmit s) = stamps s"
  "work_queue (MarkSubmit s) = work_queue s"
  "chunk_reserve (MarkSubmit s) = chunk_reserve s"
  "commands (chunk (MarkSubmit s)) = commands (chunk s)"
  "pending_commands (MarkSubmit s) = pending_commands s"
  "reserve_is_reset (MarkSubmit s) = reserve_is_reset s"
  by (simp_all add: MarkSubmit_def pending_commands_def reserve_is_reset_def)

lemma InvalidateState_fields [simp]:
  "master_semaphore (InvalidateState s) = master_semaphore s"
  "stamps (InvalidateState s) = stamps s"
  "pending_commands (InvalidateState s) = pending_commands s"
  "reserve_is_reset (InvalidateState s) = reserve_is_reset s"
  by (simp_all add: InvalidateState_def pending_commands_def reserve_is_reset_def)

lemma NotifySegment_fields [simp]:
  "master_semaphore (NotifySegment b s) = master_semaphore s"
  "stamps (NotifySegment b s) = stamps s"
  "state (NotifySegment b s) = state s"
  "pending_commands (NotifySegment b s) = pending_commands s"
  "reserve_is_reset (NotifySegment b s) = reserve_is_reset s"
  "num_renderpass_images (NotifySegment b s) = num_renderpass_images s"
  "renderpass_images (NotifySegment b s) = renderpass_images s"
  "renderpass_image_ranges (NotifySegment b s) = renderpass_image_ranges s"
  by (simp_all add: NotifySegment_def pending_commands_def reserve_is_reset_def split: option.splits)

lemma AllocateNewContext_fields [simp]:
  "master_semaphore (AllocateNewContext s) = master_semaphore s"
  "stamps (AllocateNewContext s) = stamps s"
  "pending_commands (AllocateNewContext s) = pending_commands s"
  "reserve_is_reset (AllocateNewContext s) = reserve_is_reset s"
  by (simp_all add: AllocateNewContext_def)

lemma UpdateGraphicsPipeline_fields [simp]:
  "master_semaphore (snd (UpdateGraphicsPipeline p s)) = master_semaphore s"
  "stamps (snd (UpdateGraphicsPipeline p s)) = stamps s"
  "pending_commands (snd (UpdateGraphicsPipeline p s)) = pending_commands s"
  "reserve_is_reset (snd (UpdateGraphicsPipeline p s)) = reserve_is_reset s"
  by (simp_all add: UpdateGraphicsPipeline_def pending_commands_def reserve_is_reset_def)

lemma UpdateRescaling_fields [simp]:
  "master_semaphore (snd (UpdateRescaling b s)) = master_semaphore s"
  "stamps (snd (UpdateRescaling b s)) = stamps s"
  "pending_commands (snd (UpdateRescaling b s)) = pending_commands s"
  "reserve_is_reset (snd (UpdateRescaling b s)) = reserve_is_reset s"
  by (simp_all add: UpdateRescaling_def pending_commands_def reserve_is_reset_def)

lemma EndRenderPass_fields [simp]:
  "master_semaphore (EndRenderPass s) = master_semaphore s"
  "stamps (EndRenderPass s) = stamps s"
  by (simp_all add: EndRenderPass_def Let_def)

lemma EndPendingOperations_fields [simp]:
  "master_semaphore (EndPendingOperations s) = master_semaphore s"
  "stamps (EndPendingOperations s) = stamps s"
  by (simp_all add: EndPendingOperations_def)

lemma RequestRenderpass_fields [simp]:
  "master_semaphore (RequestRenderpass fb s) = master_semaphore s"
  "stamps (RequestRenderpass fb s) = stamps s"
  by (simp_all add: RequestRenderpass_def Let_def)

lemma RequestRenderpass_reserve:
  assumes "reserve_is_reset s"
  shows "reserve_is_reset (RequestRenderpass fb s)"
proof (cases "renderpass_matches fb s")
  case True
  then show ?thesis using assms by (simp add: RequestRenderpass_def)
next
  case False
  let ?s1 = "EndRenderPass s"
  let ?s2 = "?s1\<lparr>state := (state ?s1)\<lparr>renderpass := fb_RenderPass fb,
                                          framebuffer := fb_Handle fb,
                                          render_area := fb_RenderArea fb\<rparr>\<rparr>"
  have r2: "reserve_is_reset ?s2"
    using EndRenderPass_pending(2) [OF assms] by (simp add: reserve_is_reset_def)
  show ?thesis
    using False Record_pending(2) [OF r2, of "BeginRenderPassCmd (fb_RenderPass fb) (fb_Handle fb) (fb_RenderArea fb)"]
    by (simp add: RequestRenderpass_def Let_def reserve_is_reset_def)
qed

lemma EndRenderPass_added:
  assumes "reserve_is_reset s"
  shows "\<exists>added. pending_commands (EndRenderPass s) = pending_commands s @ added \<and>
           submit_ticks added = [] \<and> closure_stamps added = []"
  using EndRenderPass_pending(1) [OF assms] by simp

lemma RequestRenderpass_added:
  assumes "reserve_is_reset s"
  shows "\<exists>added. pending_commands (RequestRenderpass fb s) = pending_commands s @ added \<and>
           submit_ticks added = [] \<and> closure_stamps added = []"
  using RequestRenderpass_pending [OF assms, of fb] by simp

lemma timeline_cong:
  "master_semaphore s' = master_semaphore s \<Longrightarrow>
   submit_ticks (pending_commands s') = submit_ticks (pending_commands s) \<Longrightarrow>
   timeline s' = timeline s"
  by (simp add: timeline_def)

lemma invariant_cong:
  assumes "scheduler_invariant s" and "reserve_is_reset s'"
    and "master_semaphore s' = master_semaphore s"
    and "submit_ticks (pending_commands s') = submit_ticks (pending_commands s)"
  shows "scheduler_invariant s'"
  using assms timeline_cong [of s' s]
  by (simp add: scheduler_invariant_def ticks_in_order_def retired_are_signaled_def)

lemma sorted_wrt_snoc2:
  fixes a b :: "'a :: order"
  assumes "sorted_wrt (<) (xs @ [a])" and "a < b"
  shows "sorted_wrt (<) (xs @ [a, b])"
  using assms by (auto simp: sorted_wrt_append intro: less_trans)

lemma word_less_succ: "unat (c :: u64) + 1 < 2 ^ 64 \<Longrightarrow> c < c + 1"
  by (simp add: word_less_nat_alt unat_word_ariths)

lemma unat_succ64: "unat (c :: u64) + 1 < 2 ^ 64 \<Longrightarrow> unat (c + 1) = unat c + 1"
  by (simp add: unat_word_ariths)

lemma SubmitExecution_effect:
  assumes inv: "scheduler_invariant s"
    and room: "unat (current_tick (master_semaphore s)) + 1 < 2 ^ 64"
  shows "fst (SubmitExecution sg wt s) = current_tick (master_semaphore s)"
    and "scheduler_invariant (snd (SubmitExecution sg wt s))"
    and "master_semaphore (snd (SubmitExecution sg wt s)) =
           (master_semaphore s)\<lparr>current_tick := current_tick (master_semaphore s) + 1\<rparr>"
    and "stamps (snd (SubmitExecution sg wt s)) = stamps s"
    and "commands (chunk (snd (SubmitExecution sg wt s))) = []"
    and "\<exists>added. pending_commands (snd (SubmitExecution sg wt s)) =
            pending_commands s @ added @ [SubmitCmd (current_tick (master_semaphore s)) sg wt] \<and>
            submit_ticks added = [] \<and> closure_stamps added = []"
    and "pending_commands (snd (SubmitExecution sg wt s)) =
            pending_commands s @
            (if renderpass (state s) = 0 then []
             else [EndRenderPassCmd (num_renderpass_images s) (renderpass_images s)
                     (renderpass_image_ranges s)]) @
            [SubmitCmd (current_tick (master_semaphore s)) sg wt]"
proof -
  let ?tick = "current_tick (master_semaphore s)"
  let ?s0 = "NotifySegment False s"
  let ?s1 = "InvalidateState (EndPendingOperations s)"
  let ?ms = "(master_semaphore s)\<lparr>current_tick := ?tick + 1\<rparr>"
  let ?s2 = "?s1\<lparr>master_semaphore := ?ms\<rparr>"
  let ?s3 = "Record (SubmitCmd ?tick sg wt) ?s2"
  let ?s4 = "MarkSubmit ?s3"
  have r: "reserve_is_reset s" using inv by (simp add: scheduler_invariant_def)
  have r0: "reserve_is_reset ?s0" using r by simp
  define added where "added =
    (if renderpass (state s) = 0 then []
     else [EndRenderPassCmd (num_renderpass_images s) (renderpass_images s)
             (renderpass_image_ranges s)])"
  have added: "pending_commands ?s1 = pending_commands s @ added"
    using EndRenderPass_pending(1) [OF r0] by (simp add: EndPendingOperations_def added_def)
  have nt: "submit_ticks added = []" and ns: "closure_stamps added = []"
    by (simp_all add: added_def)
  have r1: "reserve_is_reset ?s1"
    using EndRenderPass_pending(2) [OF r0] by (simp add: EndPendingOperations_def)
  have ms1: "master_semaphore ?s1 = master_semaphore s"
    by (simp add: EndPendingOperations_def)
  have st1: "stamps ?s1 = stamps s"
    by (simp add: EndPendingOperations_def)
  have r2: "reserve_is_reset ?s2" using r1 by (simp add: reserve_is_reset_def)
  have p2: "pending_commands ?s2 = pending_commands ?s1" by (simp add: pending_commands_def)
  have p3: "pending_commands ?s3 = pending_commands s @ added @ [SubmitCmd ?tick sg wt]"
    using Record_pending(1) [OF r2] p2 added by simp
  have r3: "reserve_is_reset ?s3" using Record_pending(2) [OF r2] .
  have nonempty: "commands (chunk ?s4) \<noteq> []"
    by (simp add: Record_def Let_def)
  have r4: "reserve_is_reset ?s4" using r3 by simp
  have unfold: "SubmitExecution sg wt s = (?tick, DispatchWork ?s4)"
    by (simp add: SubmitExecution_def NextTick_def Let_def)
  let ?s5 = "DispatchWork ?s4"
  have p5: "pending_commands ?s5 = pending_commands s @ added @ [SubmitCmd ?tick sg wt]"
    using DispatchWork_pending(1) [OF r4] p3 by simp
  have r5: "reserve_is_reset ?s5" using DispatchWork_pending(2) [OF r4] .
  have ms5: "master_semaphore ?s5 = ?ms" by simp
  have st5: "stamps ?s5 = stamps s" using st1 by simp
  have r4q: "reserve_is_reset (?s4\<lparr>work_queue := work_queue ?s4 @ [chunk ?s4]\<rparr>)"
    using r4 by (simp add: reserve_is_reset_def)
  have c5: "commands (chunk ?s5) = []"
    using nonempty AcquireNewChunk_reset [OF r4q] by (simp add: DispatchWork_def)
  have tl: "timeline ?s5 = butlast (timeline s) @ [?tick, ?tick + 1]"
    by (simp add: timeline_def p5 ms5 nt butlast_append)
  have tls: "timeline s = butlast (timeline s) @ [?tick]"
    by (simp add: timeline_def butlast_append)
  have "sorted_wrt (<) (butlast (timeline s) @ [?tick])"
    using inv tls by (simp add: scheduler_invariant_def ticks_in_order_def)
  then have "sorted_wrt (<) (timeline ?s5)"
    unfolding tl using word_less_succ [OF room] by (rule sorted_wrt_snoc2)
  moreover have "retired_are_signaled ?s5"
    using inv by (simp add: scheduler_invariant_def retired_are_signaled_def ms5)
  ultimately have inv5: "scheduler_invariant ?s5"
    using r5 by (simp add: scheduler_invariant_def ticks_in_order_def)
  show "fst (SubmitExecution sg wt s) = ?tick" by (simp add: unfold)
  show "scheduler_invariant (snd (SubmitExecution sg wt s))" using inv5 by (simp add: unfold)
  show "master_semaphore (snd (SubmitExecution sg wt s)) = ?ms" using ms5 by (simp add: unfold)
  show "stamps (snd (SubmitExecution sg wt s)) = stamps s" using st5 by (simp add: unfold)
  show "commands (chunk (snd (SubmitExecution sg wt s))) = []" using c5 by (simp add: unfold)
  show "\<exists>added. pending_commands (snd (SubmitExecution sg wt s)) =
            pending_commands s @ added @ [SubmitCmd ?tick sg wt] \<and>
            submit_ticks added = [] \<and> closure_stamps added = []"
    using p5 nt ns by (auto simp: unfold)
  show "pending_commands (snd (SubmitExecution sg wt s)) =
            pending_commands s @
            (if renderpass (state s) = 0 then []
             else [EndRenderPassCmd (num_renderpass_images s) (renderpass_images s)
                     (renderpass_image_ranges s)]) @
            [SubmitCmd ?tick sg wt]"
    using p5 by (simp add: unfold added_def)
qed

lemma master_semaphore_update_frame [simp]:
  "pending_commands (s\<lparr>master_semaphore := ms\<rparr>) = pending_commands s"
  "reserve_is_reset (s\<lparr>master_semaphore := ms\<rparr>) = reserve_is_reset s"
  by (simp_all add: pending_commands_def reserve_is_reset_def)

lemma Execute_effect:
  assumes "Execute r c s = Inr s'"
  shows "map sub_signal_value (gpu_queue (master_semaphore s')) =
           map sub_signal_value (gpu_queue (master_semaphore s)) @ submit_ticks [c]"
    and "stamps s' = stamps s @ closure_stamps [c]"
    and "gpu_tick (master_semaphore s') = gpu_tick (master_semaphore s)"
    and "current_tick (master_semaphore s') = current_tick (master_semaphore s)"
    and "gpu_completed (master_semaphore s') = gpu_completed (master_semaphore s)"
    and "chunk s' = chunk s" and "work_queue s' = work_queue s"
    and "chunk_reserve s' = chunk_reserve s"
  using assms
  by (cases c; auto simp: SubmitQueue_def Let_def split: sum.splits VkResult.splits if_splits prod.splits)+

lemma ExecuteAll_loop_effect:
  assumes "ExecuteAll_loop r cmds s = Inr s'"
  shows "map sub_signal_value (gpu_queue (master_semaphore s')) =
           map sub_signal_value (gpu_queue (master_semaphore s)) @ submit_ticks cmds \<and>
         stamps s' = stamps s @ closure_stamps cmds \<and>
         gpu_tick (master_semaphore s') = gpu_tick (master_semaphore s) \<and>
         current_tick (master_semaphore s') = current_tick (master_semaphore s) \<and>
         gpu_completed (master_semaphore s') = gpu_completed (master_semaphore s) \<and>
         chunk s' = chunk s \<and> work_queue s' = work_queue s \<and>
         chunk_reserve s' = chunk_reserve s"
  using assms
proof (induction cmds arbitrary: s)
  case Nil
  then show ?case by simp
next
  case (Cons c cmds)
  then obtain s1 where c: "Execute r c s = Inr s1" and rest: "ExecuteAll_loop r cmds s1 = Inr s'"
    by (auto split: sum.splits)
  have split: "submit_ticks (c # cmds) = submit_ticks [c] @ submit_ticks cmds"
    "closure_stamps (c # cmds) = closure_stamps [c] @ closure_stamps cmds"
    using submit_ticks_append [of "[c]" cmds] closure_stamps_append [of "[c]" cmds] by simp_all
  show ?case
    using Cons.IH [OF rest] Execute_effect [OF c] unfolding split by simp
qed

lemma WorkerThread_turn_effect:
  assumes "WorkerThread_turn r s = Inr s'"
  shows "timeline s' = timeline s"
    and "issued_ticks s' = issued_ticks s"
    and "stamps s' @ pending_stamps s' = stamps s @ pending_stamps s"
    and "reserve_is_reset s \<Longrightarrow> reserve_is_reset s'"
    and "gpu_tick (master_semaphore s') = gpu_tick (master_semaphore s)"
    and "current_tick (master_semaphore s') = current_tick (master_semaphore s)"
    and "gpu_completed (master_semaphore s') = gpu_completed (master_semaphore s)"
    and "chunk s' = chunk s"
    and "\<exists>ran. pending_commands s = ran @ pending_commands s'"
proof -
  have "timeline s' = timeline s \<and> issued_ticks s' = issued_ticks s \<and>
    stamps s' @ pending_stamps s' = stamps s @ pending_stamps s \<and>
    (reserve_is_reset s \<longrightarrow> reserve_is_reset s') \<and>
    gpu_tick (master_semaphore s') = gpu_tick (master_semaphore s) \<and>
    current_tick (master_semaphore s') = current_tick (master_semaphore s) \<and>
    gpu_completed (master_semaphore s') = gpu_completed (master_semaphore s) \<and>
    chunk s' = chunk s \<and> (\<exists>ran. pending_commands s = ran @ pending_commands s')"
  proof (cases "work_queue s")
    case Nil
    with assms have "s' = s" by (simp add: WorkerThread_turn_def)
    then show ?thesis by simp
  next
    case (Cons work rest)
    from assms Cons obtain s1 where
      loop: "ExecuteAll_loop r (commands work) (s\<lparr>work_queue := rest\<rparr>) = Inr s1"
      and s': "s' = (if submit work then AllocateWorkerCommandBuffer s1 else s1)
                 \<lparr>chunk_reserve := chunk_reserve (if submit work then AllocateWorkerCommandBuffer s1 else s1)
                    @ [work\<lparr>submit := False, commands := []\<rparr>]\<rparr>"
      by (auto simp: WorkerThread_turn_def ExecuteAll_def Let_def split: sum.splits)
    note eff = ExecuteAll_loop_effect [OF loop]
    have ms: "master_semaphore s' = master_semaphore s1"
      and st: "stamps s' = stamps s1" and ch: "chunk s' = chunk s1"
      and wq: "work_queue s' = work_queue s1"
      and cr: "chunk_reserve s' = chunk_reserve s1 @ [work\<lparr>submit := False, commands := []\<rparr>]"
      by (simp_all add: s' AllocateWorkerCommandBuffer_def)
    have p: "pending_commands s = commands work @ pending_commands s'"
      using eff Cons by (simp add: pending_commands_def ch wq)
    show ?thesis
      using eff Cons p
      by (auto simp: timeline_def issued_ticks_def pending_stamps_def ms st ch cr reserve_is_reset_def)
  qed
  then show "timeline s' = timeline s" "issued_ticks s' = issued_ticks s"
    "stamps s' @ pending_stamps s' = stamps s @ pending_stamps s"
    "reserve_is_reset s \<Longrightarrow> reserve_is_reset s'"
    "gpu_tick (master_semaphore s') = gpu_tick (master_semaphore s)"
    "current_tick (master_semaphore s') = current_tick (master_semaphore s)"
    "gpu_completed (master_semaphore s') = gpu_completed (master_semaphore s)"
    "chunk s' = chunk s" "\<exists>ran. pending_commands s = ran @ pending_commands s'"
    by blast+
qed

lemma gpu_retire_effect:
  assumes "scheduler_invariant s"
  shows "scheduler_invariant (s\<lparr>master_semaphore := gpu_retire (master_semaphore s)\<rparr>)"
    and "issued_ticks (s\<lparr>master_semaphore := gpu_retire (master_semaphore s)\<rparr>) = issued_ticks s"
    and "current_tick (gpu_retire (master_semaphore s)) = current_tick (master_semaphore s)"
proof -
  let ?s' = "s\<lparr>master_semaphore := gpu_retire (master_semaphore s)\<rparr>"
  have p: "pending_commands ?s' = pending_commands s" by (simp add: pending_commands_def)
  show "current_tick (gpu_retire (master_semaphore s)) = current_tick (master_semaphore s)"
    by (simp add: gpu_retire_def split: list.splits)
  show "issued_ticks ?s' = issued_ticks s"
    by (simp add: issued_ticks_def p gpu_retire_def split: list.splits)
  show "scheduler_invariant ?s'"
  proof (cases "gpu_queue (master_semaphore s)")
    case Nil
    then have "gpu_retire (master_semaphore s) = master_semaphore s" by (simp add: gpu_retire_def)
    then show ?thesis using assms
      by (simp add: scheduler_invariant_def ticks_in_order_def retired_are_signaled_def
          timeline_def p reserve_is_reset_def)
  next
    case (Cons sub rest)
    have tl: "timeline s = gpu_tick (master_semaphore s) # timeline ?s'"
      using Cons by (simp add: timeline_def p gpu_retire_def)
    have lt: "gpu_tick (master_semaphore s) < sub_signal_value sub"
      using assms Cons by (simp add: scheduler_invariant_def ticks_in_order_def timeline_def)
    have "retired_are_signaled ?s'"
      using assms Cons lt
      by (auto simp: scheduler_invariant_def retired_are_signaled_def gpu_retire_def list_all_iff)
    moreover have "sorted_wrt (<) (timeline ?s')"
      using assms tl by (simp add: scheduler_invariant_def ticks_in_order_def)
    moreover have "reserve_is_reset ?s'"
      using assms by (simp add: scheduler_invariant_def reserve_is_reset_def)
    ultimately show ?thesis
      by (simp add: scheduler_invariant_def ticks_in_order_def)
  qed
qed

lemma env_step_effect:
  assumes "env_step e s = Inr s'" and "scheduler_invariant s"
  shows "scheduler_invariant s'"
    and "issued_ticks s' = issued_ticks s"
    and "stamps s' @ pending_stamps s' = stamps s @ pending_stamps s"
    and "current_tick (master_semaphore s') = current_tick (master_semaphore s)"
    and "chunk s' = chunk s"
    and "\<exists>ran. pending_commands s = ran @ pending_commands s'"
proof -
  have "scheduler_invariant s' \<and> issued_ticks s' = issued_ticks s \<and>
    stamps s' @ pending_stamps s' = stamps s @ pending_stamps s \<and>
    current_tick (master_semaphore s') = current_tick (master_semaphore s) \<and>
    chunk s' = chunk s \<and> (\<exists>ran. pending_commands s = ran @ pending_commands s')"
  proof (cases e)
    case (WorkerRuns r)
    with assms have turn: "WorkerThread_turn r s = Inr s'" by (simp add: env_step_def)
    note eff = WorkerThread_turn_effect [OF turn]
    have "scheduler_invariant s'"
      using assms(2) eff(1,4,5,7)
      by (simp add: scheduler_invariant_def ticks_in_order_def retired_are_signaled_def)
    with eff show ?thesis by simp
  next
    case GpuRetires
    with assms have s': "s' = s\<lparr>master_semaphore := gpu_retire (master_semaphore s)\<rparr>"
      by (simp add: env_step_def)
    have "pending_commands s' = pending_commands s" by (simp add: s' pending_commands_def)
    then show ?thesis
      using gpu_retire_effect [OF assms(2)] by (simp add: s' pending_stamps_def)
  qed
  then show "scheduler_invariant s'" "issued_ticks s' = issued_ticks s"
    "stamps s' @ pending_stamps s' = stamps s @ pending_stamps s"
    "current_tick (master_semaphore s') = current_tick (master_semaphore s)"
    "chunk s' = chunk s" "\<exists>ran. pending_commands s = ran @ pending_commands s'"
    by blast+
qed

lemma quiet_step:
  assumes "scheduler_invariant s" and "reserve_is_reset s'"
    and "master_semaphore s' = master_semaphore s" and "stamps s' = stamps s"
    and "pending_commands s' = pending_commands s @ added" and "submit_ticks added = []"
  shows "scheduler_invariant s'" and "issued_ticks s' = issued_ticks s"
    and "stamps s' @ pending_stamps s' = stamps s @ pending_stamps s @ closure_stamps added"
proof -
  have "submit_ticks (pending_commands s') = submit_ticks (pending_commands s)"
    using assms(5,6) by simp
  then show "scheduler_invariant s'" "issued_ticks s' = issued_ticks s"
    using invariant_cong [OF assms(1,2,3)] assms(3) by (simp_all add: issued_ticks_def)
  show "stamps s' @ pending_stamps s' = stamps s @ pending_stamps s @ closure_stamps added"
    using assms(4,5) by (simp add: pending_stamps_def)
qed

lemma Flush_effect:
  assumes inv: "scheduler_invariant s"
    and room: "unat (current_tick (master_semaphore s)) + 1 < 2 ^ 64"
    and flush: "Flush sg wt s = (tick, s')"
  shows "tick = current_tick (master_semaphore s)"
    and "scheduler_invariant s'"
    and "current_tick (master_semaphore s') = current_tick (master_semaphore s) + 1"
    and "issued_ticks s' = issued_ticks s @ [tick]"
    and "stamps s' @ pending_stamps s' = stamps s @ pending_stamps s"
proof -
  let ?s1 = "snd (SubmitExecution sg wt s)"
  note sub = SubmitExecution_effect [OF inv room, of sg wt]
  have tick: "tick = fst (SubmitExecution sg wt s)" and s': "s' = AllocateNewContext ?s1"
    using flush by (simp_all add: Flush_def split: prod.splits)
  show "tick = current_tick (master_semaphore s)" using tick sub(1) by simp
  have r1: "reserve_is_reset ?s1" using sub(2) by (simp add: scheduler_invariant_def)
  show "scheduler_invariant s'"
    unfolding s' by (rule invariant_cong [OF sub(2)]) (simp_all add: r1)
  show "current_tick (master_semaphore s') = current_tick (master_semaphore s) + 1"
    by (simp add: s' sub(3))
  obtain added where p: "pending_commands ?s1 =
      pending_commands s @ added @ [SubmitCmd (current_tick (master_semaphore s)) sg wt]"
    and nt: "submit_ticks added = []" and ns: "closure_stamps added = []"
    using sub(6) by blast
  show "issued_ticks s' = issued_ticks s @ [tick]"
    using p nt tick sub(1) by (simp add: issued_ticks_def s' sub(3))
  show "stamps s' @ pending_stamps s' = stamps s @ pending_stamps s"
    using p ns by (simp add: pending_stamps_def s' sub(4))
qed

lemma run_op_effect:
  assumes run: "run_op x s = Inr (ts, s')" and inv: "scheduler_invariant s"
    and room: "unat (current_tick (master_semaphore s)) + length ts < 2 ^ 64"
  shows "scheduler_invariant s' \<and>
    unat (current_tick (master_semaphore s')) = unat (current_tick (master_semaphore s)) + length ts \<and>
    (\<forall>t \<in> set ts. unat (current_tick (master_semaphore s)) \<le> unat t \<and>
                  unat t < unat (current_tick (master_semaphore s'))) \<and>
    sorted_wrt (<) ts \<and>
    issued_ticks s' = issued_ticks s @ ts \<and>
    stamps s' @ pending_stamps s' = stamps s @ pending_stamps s @ recorded_stamps [x]"
proof -
  have r: "reserve_is_reset s" using inv by (simp add: scheduler_invariant_def)
  show ?thesis
  proof (cases x)
    case (OpRecord n)
    then have s': "s' = Record (Closure n) s" and ts: "ts = []" using run by simp_all
    show ?thesis
      using quiet_step [OF inv Record_pending(2) [OF r] _ _ Record_pending(1) [OF r], of "Closure n"]
      by (simp add: s' ts OpRecord)
  next
    case (OpRequestRenderpass fb)
    then have s': "s' = RequestRenderpass fb s" and ts: "ts = []" using run by simp_all
    obtain added where a: "pending_commands (RequestRenderpass fb s) = pending_commands s @ added"
      "submit_ticks added = []" "closure_stamps added = []"
      using RequestRenderpass_added [OF r] by blast
    show ?thesis
      using quiet_step [OF inv RequestRenderpass_reserve [OF r] _ _ a(1) a(2)] a(3)
      by (simp add: s' ts OpRequestRenderpass)
  next
    case OpRequestOutsideRenderPassOperationContext
    then have s': "s' = EndRenderPass s" and ts: "ts = []"
      using run by (simp_all add: RequestOutsideRenderPassOperationContext_def)
    obtain added where a: "pending_commands (EndRenderPass s) = pending_commands s @ added"
      "submit_ticks added = []" "closure_stamps added = []"
      using EndRenderPass_added [OF r] by blast
    show ?thesis
      using quiet_step [OF inv EndRenderPass_pending(2) [OF r] _ _ a(1) a(2)] a(3)
      by (simp add: s' ts OpRequestOutsideRenderPassOperationContext)
  next
    case (OpUpdateGraphicsPipeline p)
    then have s': "s' = snd (UpdateGraphicsPipeline p s)" and ts: "ts = []" using run by simp_all
    show ?thesis
      using quiet_step [of s s' "[]"] inv r
      by (simp add: s' ts OpUpdateGraphicsPipeline)
  next
    case (OpUpdateRescaling b)
    then have s': "s' = snd (UpdateRescaling b s)" and ts: "ts = []" using run by simp_all
    show ?thesis
      using quiet_step [of s s' "[]"] inv r
      by (simp add: s' ts OpUpdateRescaling)
  next
    case OpDispatchWork
    then have s': "s' = DispatchWork s" and ts: "ts = []" using run by simp_all
    show ?thesis
      using quiet_step [of s s' "[]"] inv DispatchWork_pending [OF r]
      by (simp add: s' ts OpDispatchWork)
  next
    case (OpFlush sg wt)
    then obtain tick where flush: "Flush sg wt s = (tick, s')" and ts: "ts = [tick]"
      using run by (auto split: prod.splits)
    have room1: "unat (current_tick (master_semaphore s)) + 1 < 2 ^ 64"
      using room ts by simp
    note eff = Flush_effect [OF inv room1 flush]
    have "unat (current_tick (master_semaphore s')) = unat (current_tick (master_semaphore s)) + 1"
      using eff(3) unat_succ64 [OF room1] by simp
    then show ?thesis
      using eff by (simp add: ts OpFlush)
  next
    case (OpEnv e)
    then have step: "env_step e s = Inr s'" and ts: "ts = []"
      using run by (auto split: sum.splits)
    show ?thesis
      using env_step_effect [OF step inv] by (simp add: ts OpEnv)
  qed
qed

lemma recorded_stamps_Cons: "recorded_stamps (x # ops) = recorded_stamps [x] @ recorded_stamps ops"
  by (cases x) simp_all

lemma run_effect:
  assumes "run ops s = Inr (ticks, s')" and "scheduler_invariant s"
    and "unat (current_tick (master_semaphore s)) + length ticks < 2 ^ 64"
  shows "scheduler_invariant s' \<and>
    unat (current_tick (master_semaphore s')) = unat (current_tick (master_semaphore s)) + length ticks \<and>
    (\<forall>t \<in> set ticks. unat (current_tick (master_semaphore s)) \<le> unat t \<and>
                     unat t < unat (current_tick (master_semaphore s'))) \<and>
    sorted_wrt (<) ticks \<and>
    issued_ticks s' = issued_ticks s @ ticks \<and>
    stamps s' @ pending_stamps s' = stamps s @ pending_stamps s @ recorded_stamps ops"
  using assms
proof (induction ops arbitrary: s ticks)
  case Nil
  then show ?case by simp
next
  case (Cons x ops)
  from Cons.prems(1) obtain ts1 s1 ts2 where
    first: "run_op x s = Inr (ts1, s1)" and rest: "run ops s1 = Inr (ts2, s')"
    and ticks: "ticks = ts1 @ ts2"
    by (auto split: sum.splits prod.splits)
  have room1: "unat (current_tick (master_semaphore s)) + length ts1 < 2 ^ 64"
    using Cons.prems(3) ticks by simp
  note e1 = run_op_effect [OF first Cons.prems(2) room1]
  have room2: "unat (current_tick (master_semaphore s1)) + length ts2 < 2 ^ 64"
    using Cons.prems(3) ticks e1 by simp
  note e2 = Cons.IH [OF rest e1 [THEN conjunct1] room2]
  have cross: "\<forall>a \<in> set ts1. \<forall>b \<in> set ts2. a < b"
    using e1 e2 by (fastforce simp: word_less_nat_alt)
  have "sorted_wrt (<) ticks"
    using e1 e2 cross by (simp add: ticks sorted_wrt_append)
  moreover have "\<forall>t \<in> set ticks. unat (current_tick (master_semaphore s)) \<le> unat t \<and>
                     unat t < unat (current_tick (master_semaphore s'))"
    using e1 e2 by (fastforce simp: ticks)
  moreover have "stamps s' @ pending_stamps s' = stamps s @ pending_stamps s @ recorded_stamps (x # ops)"
    using e1 e2 recorded_stamps_Cons [of x ops] by simp
  ultimately show ?case
    using e1 e2 by (simp add: ticks)
qed

lemma timeline_bounds:
  assumes "scheduler_invariant s"
  shows "\<forall>t \<in> set (map sub_signal_value (gpu_queue (master_semaphore s))) \<union>
              set (submit_ticks (pending_commands s)). gpu_tick (master_semaphore s) < t"
  using assms by (auto simp: scheduler_invariant_def ticks_in_order_def timeline_def sorted_wrt_append)


lemma Scheduler_new_invariant: "scheduler_invariant (Scheduler_new fits has_query_cache)"
  by (simp add: scheduler_invariant_def reserve_is_reset_def ticks_in_order_def timeline_def
      retired_are_signaled_def pending_commands_def Scheduler_new_def AcquireNewChunk_def
      AllocateWorkerCommandBuffer_def)

lemmas run_eval =
  run.simps run_op.simps Record_def DispatchWork_def AcquireNewChunk_def Flush_def
  SubmitExecution_def EndPendingOperations_def EndRenderPass_def InvalidateState_def
  NotifySegment_def AllocateNewContext_def MarkSubmit_def NextTick_def env_step_def
  WorkerThread_turn_def ExecuteAll_def SubmitQueue_def gpu_retire_def Finish_def
  WaitUntilTick_def IsSignaled_def example_scheduler_def Scheduler_new_def
  AllocateWorkerCommandBuffer_def Let_def



lemma last_submit_tick:
  assumes "cmds \<noteq> []" and "last cmds = SubmitCmd tick sg wt"
  shows "tick \<in> set (submit_ticks cmds)"
proof -
  have "cmds = butlast cmds @ [SubmitCmd tick sg wt]"
    using assms by (metis append_butlast_last_id)
  then have "submit_ticks cmds = submit_ticks (butlast cmds) @ [tick]"
    by (metis submit_ticks_append submit_ticks.simps(1,2))
  then show ?thesis by simp
qed

lemma MasterSemaphore_Wait_effect:
  assumes "MasterSemaphore_Wait tick evs s = Done (s', rest)" and "scheduler_invariant s"
    and "pending_commands s = [] \<or>
         (pending_commands s \<noteq> [] \<and> (\<exists>sg wt. last (pending_commands s) = SubmitCmd tick sg wt))"
  shows "pending_commands s' = [] \<and> stamps s' = stamps s @ pending_stamps s \<and>
         scheduler_invariant s' \<and> IsTickCompleted s' tick"
  using assms
proof (induction evs arbitrary: s)
  case Nil
  then have sig: "IsSignaled (master_semaphore s) tick" and s': "s' = s"
    by (auto split: if_splits)
  have "pending_commands s = []"
  proof (rule ccontr)
    assume ne: "pending_commands s \<noteq> []"
    with Nil.prems(3) obtain sg wt where "last (pending_commands s) = SubmitCmd tick sg wt"
      by blast
    then have "tick \<in> set (submit_ticks (pending_commands s))"
      using ne by (rule last_submit_tick [rotated])
    then have "gpu_tick (master_semaphore s) < tick"
      using timeline_bounds [OF Nil.prems(2)] by blast
    then show False using sig by (simp add: IsSignaled_def)
  qed
  then show ?case
    using sig Nil.prems(2) by (simp add: s' pending_stamps_def IsTickCompleted_def)
next
  case (Cons e evs)
  show ?case
  proof (cases "IsSignaled (master_semaphore s) tick")
    case True
    then have s': "s' = s" using Cons.prems(1) by simp
    have "pending_commands s = []"
    proof (rule ccontr)
      assume ne: "pending_commands s \<noteq> []"
      with Cons.prems(3) obtain sg wt where "last (pending_commands s) = SubmitCmd tick sg wt"
        by blast
      then have "tick \<in> set (submit_ticks (pending_commands s))"
        using ne by (rule last_submit_tick [rotated])
      then have "gpu_tick (master_semaphore s) < tick"
        using timeline_bounds [OF Cons.prems(2)] by blast
      then show False using True by (simp add: IsSignaled_def)
    qed
    then show ?thesis
      using True Cons.prems(2) by (simp add: s' pending_stamps_def IsTickCompleted_def)
  next
    case False
    then obtain s1 where step: "env_step e s = Inr s1" and rest: "MasterSemaphore_Wait tick evs s1 = Done (s', rest)"
      using Cons.prems(1) by (auto split: sum.splits)
    note eff = env_step_effect [OF step Cons.prems(2)]
    obtain ran where ran: "pending_commands s = ran @ pending_commands s1"
      using eff(6) by blast
    have tail: "pending_commands s1 = [] \<or>
         (pending_commands s1 \<noteq> [] \<and> (\<exists>sg wt. last (pending_commands s1) = SubmitCmd tick sg wt))"
      using Cons.prems(3) ran by (cases "pending_commands s1 = []") auto
    have "pending_commands s' = [] \<and> stamps s' = stamps s1 @ pending_stamps s1 \<and>
         scheduler_invariant s' \<and> IsTickCompleted s' tick"
      by (rule Cons.IH [OF rest eff(1) tail])
    then show ?thesis using eff(3) by simp
  qed
qed

lemma barrier_loop_none: "barrier_loop 0 0 images ranges bs = Inr bs"
  by (subst barrier_loop.simps) simp

lemma Execute_safe:
  assumes "runs_safely c"
  shows "\<exists>s'. Execute VK_SUCCESS c s = Inr s'"
proof (cases c)
  case (EndRenderPassCmd n images ranges)
  show ?thesis
  proof (cases "n = 0")
    case True
    then show ?thesis
      by (simp add: EndRenderPassCmd EndRenderPass_closure_def barrier_count_of_def
          MAX_BARRIERS_def barrier_loop_none)
  next
    case False
    then obtain imgs rs where ptrs: "images = Some imgs" "ranges = Some rs"
      using assms EndRenderPassCmd by auto
    have "unat (barrier_count_of n) \<le> length (replicate MAX_BARRIERS (None :: VkImageMemoryBarrier option))"
      using barrier_count_of_min [of n] by simp
    then have "\<exists>bs. barrier_loop 0 (barrier_count_of n) (Some imgs) (Some rs)
                  (replicate MAX_BARRIERS None) = Inr bs"
      using barrier_loop_result [of "barrier_count_of n" "replicate MAX_BARRIERS None" 0 imgs rs]
      by simp
    then show ?thesis
      by (auto simp: EndRenderPassCmd EndRenderPass_closure_def ptrs)
  qed
qed (simp_all add: SubmitQueue_def Let_def)

lemma ExecuteAll_loop_safe:
  assumes "list_all runs_safely cmds"
  shows "\<exists>s'. ExecuteAll_loop VK_SUCCESS cmds s = Inr s'"
  using assms
proof (induction cmds arbitrary: s)
  case Nil
  then show ?case by simp
next
  case (Cons c cmds)
  then obtain s1 where "Execute VK_SUCCESS c s = Inr s1"
    using Execute_safe [of c s] by auto
  then show ?case using Cons by simp
qed

lemma WorkerThread_turn_safe:
  assumes "list_all runs_safely (pending_commands s)"
  shows "\<exists>s'. WorkerThread_turn VK_SUCCESS s = Inr s' \<and> work_queue s' = tl (work_queue s) \<and>
              list_all runs_safely (pending_commands s')"
proof (cases "work_queue s")
  case Nil
  then show ?thesis using assms by (simp add: WorkerThread_turn_def)
next
  case (Cons work rest)
  have "list_all runs_safely (commands work)"
    using assms Cons by (simp add: pending_commands_def)
  then obtain s1 where loop: "ExecuteAll_loop VK_SUCCESS (commands work) (s\<lparr>work_queue := rest\<rparr>) = Inr s1"
    using ExecuteAll_loop_safe by blast
  note eff = ExecuteAll_loop_effect [OF loop]
  let ?s2 = "if submit work then AllocateWorkerCommandBuffer s1 else s1"
  let ?s' = "?s2\<lparr>chunk_reserve := chunk_reserve ?s2 @ [work\<lparr>submit := False, commands := []\<rparr>]\<rparr>"
  have turn: "WorkerThread_turn VK_SUCCESS s = Inr ?s'"
    using Cons loop by (simp add: WorkerThread_turn_def ExecuteAll_def Let_def)
  have wq: "work_queue ?s' = rest"
    using eff by (simp add: AllocateWorkerCommandBuffer_def)
  obtain ran where "pending_commands s = ran @ pending_commands ?s'"
    using WorkerThread_turn_effect(9) [OF turn] by blast
  then have "list_all runs_safely (pending_commands ?s')"
    using assms by simp
  with turn wq Cons show ?thesis by simp
qed

lemma env_run_append:
  "env_run (evs @ evs') s = (case env_run evs s of Inl err \<Rightarrow> Inl err | Inr s' \<Rightarrow> env_run evs' s')"
  by (induction evs arbitrary: s) (simp_all split: sum.splits)

lemma env_run_effect:
  assumes "env_run evs s = Inr s'" and "scheduler_invariant s"
  shows "scheduler_invariant s' \<and> issued_ticks s' = issued_ticks s \<and> chunk s' = chunk s"
  using assms
proof (induction evs arbitrary: s)
  case Nil
  then show ?case by simp
next
  case (Cons e evs)
  then obtain s1 where step: "env_step e s = Inr s1" and rest: "env_run evs s1 = Inr s'"
    by (auto split: sum.splits)
  note eff = env_step_effect [OF step Cons.prems(2)]
  show ?case using Cons.IH [OF rest eff(1)] eff by simp
qed

lemma worker_drains:
  assumes "list_all runs_safely (pending_commands s)" and "length (work_queue s) = n"
  shows "\<exists>s'. env_run (replicate n (WorkerRuns VK_SUCCESS)) s = Inr s' \<and> work_queue s' = []"
  using assms
proof (induction n arbitrary: s)
  case 0
  then show ?case by simp
next
  case (Suc n)
  obtain s1 where turn: "WorkerThread_turn VK_SUCCESS s = Inr s1"
    and wq: "work_queue s1 = tl (work_queue s)"
    and safe: "list_all runs_safely (pending_commands s1)"
    using WorkerThread_turn_safe [OF Suc.prems(1)] by blast
  have "length (work_queue s1) = n" using wq Suc.prems(2) by simp
  from Suc.IH [OF safe this] turn show ?case
    by (simp add: env_step_def)
qed

lemma gpu_drains:
  assumes "length (gpu_queue (master_semaphore s)) = n"
  shows "\<exists>s'. env_run (replicate n GpuRetires) s = Inr s' \<and> gpu_queue (master_semaphore s') = [] \<and>
              work_queue s' = work_queue s"
  using assms
proof (induction n arbitrary: s)
  case 0
  then show ?case by simp
next
  case (Suc n)
  let ?s1 = "s\<lparr>master_semaphore := gpu_retire (master_semaphore s)\<rparr>"
  have "length (gpu_queue (master_semaphore ?s1)) = n"
    using Suc.prems by (cases "gpu_queue (master_semaphore s)") (simp_all add: gpu_retire_def)
  from Suc.IH [OF this] show ?case
    by (simp add: env_step_def)
qed

lemma MasterSemaphore_Wait_returns:
  assumes "env_run evs s = Inr s'" and "IsSignaled (master_semaphore s') tick"
  shows "\<exists>s'' rest. MasterSemaphore_Wait tick evs s = Done (s'', rest)"
  using assms
proof (induction evs arbitrary: s)
  case Nil
  then show ?case by simp
next
  case (Cons e evs)
  then show ?case by (auto split: sum.splits)
qed

lemma drained:
  assumes inv: "scheduler_invariant s" and safe: "list_all runs_safely (pending_commands s)"
    and empty: "commands (chunk s) = []" and tick: "tick \<in> set (issued_ticks s)"
  shows "\<exists>s' submissions. env_run (drain_schedule (length (work_queue s)) submissions) s = Inr s' \<and>
           IsSignaled (master_semaphore s') tick"
proof -
  obtain s1 where w: "env_run (replicate (length (work_queue s)) (WorkerRuns VK_SUCCESS)) s = Inr s1"
    and wq1: "work_queue s1 = []"
    using worker_drains [OF safe refl] by blast
  obtain s2 where g: "env_run (replicate (length (gpu_queue (master_semaphore s1))) GpuRetires) s1 = Inr s2"
    and gq2: "gpu_queue (master_semaphore s2) = []" and wq2: "work_queue s2 = work_queue s1"
    using gpu_drains [OF refl] by blast
  note e1 = env_run_effect [OF w inv]
  note e2 = env_run_effect [OF g e1 [THEN conjunct1]]
  have run: "env_run (drain_schedule (length (work_queue s)) (length (gpu_queue (master_semaphore s1)))) s = Inr s2"
    using w g by (simp add: drain_schedule_def env_run_append)
  have "pending_commands s2 = []"
    using e1 e2 empty wq1 wq2 by (simp add: pending_commands_def)
  then have "issued_ticks s2 = gpu_completed (master_semaphore s2)"
    using gq2 by (simp add: issued_ticks_def)
  then have "tick \<in> set (gpu_completed (master_semaphore s2))"
    using e1 e2 tick by simp
  then have "IsSignaled (master_semaphore s2) tick"
    using e2 by (simp add: scheduler_invariant_def retired_are_signaled_def list_all_iff IsSignaled_def)
  with run show ?thesis by blast
qed

lemma Finish_returns:
  assumes inv: "scheduler_invariant s" and room: "unat (current_tick (master_semaphore s)) + 1 < 2 ^ 64"
    and safe: "faultless s"
  shows "\<exists>chunks submissions s' rest. Finish sg wt (drain_schedule chunks submissions) s = Done (s', rest)"
proof -
  let ?tick = "current_tick (master_semaphore s)"
  let ?s = "snd (SubmitExecution sg wt s)"
  note sub = SubmitExecution_effect [OF inv room, of sg wt]
  let ?w = "?s\<lparr>tick_waits := tick_waits ?s @ [?tick]\<rparr>"
  have pw: "pending_commands ?w = pending_commands ?s" by (simp add: pending_commands_def)
  have invw: "scheduler_invariant ?w"
    by (rule invariant_cong [OF sub(2)])
      (use sub(2) in \<open>simp_all add: pw scheduler_invariant_def reserve_is_reset_def\<close>)
  have safew: "list_all runs_safely (pending_commands ?w)"
    using safe by (simp add: pw sub(7) faultless_def)
  have emptyw: "commands (chunk ?w) = []" using sub(5) by simp
  have tickw: "?tick \<in> set (issued_ticks ?w)"
    by (simp add: issued_ticks_def pw sub(7))
  obtain s' submissions where run: "env_run (drain_schedule (length (work_queue ?w)) submissions) ?w = Inr s'"
    and sig: "IsSignaled (master_semaphore s') ?tick"
    using drained [OF invw safew emptyw tickw] by blast
  obtain s'' rest where "MasterSemaphore_Wait ?tick (drain_schedule (length (work_queue ?w)) submissions) ?w = Done (s'', rest)"
    using MasterSemaphore_Wait_returns [OF run sig] by blast
  then have "Finish sg wt (drain_schedule (length (work_queue ?w)) submissions) s = Done (AllocateNewContext s'', rest)"
    using sub(1) by (simp add: Finish_def WaitUntilTick_def split_def)
  then show ?thesis by blast
qed

lemma Finish_effect:
  assumes inv1: "scheduler_invariant s1"
    and room1: "unat (current_tick (master_semaphore s1)) + 1 < 2 ^ 64"
    and fin: "Finish sg wt evs s1 = Done (s2, rest)"
  shows "stamps s2 = stamps s1 @ pending_stamps s1 \<and> pending_commands s2 = []"
proof -
  let ?tick = "current_tick (master_semaphore s1)"
  let ?s = "snd (SubmitExecution sg wt s1)"
  note sub = SubmitExecution_effect [OF inv1 room1, of sg wt]
  let ?w = "?s\<lparr>tick_waits := tick_waits ?s @ [?tick]\<rparr>"
  obtain s3 where wait: "MasterSemaphore_Wait ?tick evs ?w = Done (s3, rest)" and s2: "s2 = AllocateNewContext s3"
    using fin sub(1)
    by (auto simp: Finish_def WaitUntilTick_def split: prod.splits outcome.splits)
  obtain added where p: "pending_commands ?s = pending_commands s1 @ added @ [SubmitCmd ?tick sg wt]"
    and ns: "closure_stamps added = []"
    using sub(6) by blast
  have pw: "pending_commands ?w = pending_commands ?s" by (simp add: pending_commands_def)
  have invw: "scheduler_invariant ?w"
    by (rule invariant_cong [OF sub(2)])
      (use sub(2) in \<open>simp_all add: pw scheduler_invariant_def reserve_is_reset_def\<close>)
  have lastw: "pending_commands ?w = [] \<or>
     (pending_commands ?w \<noteq> [] \<and> (\<exists>sg wt. last (pending_commands ?w) = SubmitCmd ?tick sg wt))"
    by (simp add: pw p)
  note w = MasterSemaphore_Wait_effect [OF wait invw lastw]
  have "stamps s3 = stamps ?w @ pending_stamps ?w" using w by simp
  also have "\<dots> = stamps s1 @ pending_stamps s1"
    using p ns sub(4) by (simp add: pending_stamps_def pw)
  finally show ?thesis
    using w by (simp add: s2)
qed

text \<open>
  C2. Take any run of the recording thread (closures recorded, and any of its other
  calls), interleaved in any way with turns of the worker thread and retirements by the
  GPU, from a scheduler in a consistent state and short of the wrap-around of the tick
  counter; then call \<open>Finish\<close>. Whenever \<open>Finish\<close> returns, under whatever schedule of the
  other threads, nothing recorded is left pending and the closures that have run are
  those that had run or were pending before, followed by exactly the closures recorded in
  the run, each once and in the order of recording: for a new scheduler, exactly the M
  recorded closures. And \<open>Finish\<close> does return: when no pending command faults, it
  returns once the worker thread has taken a turn per queued chunk and the GPU has retired
  the submissions.
\<close>

theorem Finish_runs_recorded_closures_in_order:
  assumes "scheduler_invariant s0" and "run ops s0 = Inr (ticks, s1)"
    and "unat (current_tick (master_semaphore s0)) + length ticks + 1 < 2 ^ 64"
  shows "(\<forall>evs s2 rest. Finish sg wt evs s1 = Done (s2, rest) \<longrightarrow>
            stamps s2 = stamps s0 @ pending_stamps s0 @ recorded_stamps ops \<and>
            pending_commands s2 = []) \<and>
         (faultless s1 \<longrightarrow>
            (\<exists>chunks submissions s2 rest.
               Finish sg wt (drain_schedule chunks submissions) s1 = Done (s2, rest)))"
proof -
  have room0: "unat (current_tick (master_semaphore s0)) + length ticks < 2 ^ 64"
    using assms(3) by simp
  note eff = run_effect [OF assms(2,1) room0]
  have inv1: "scheduler_invariant s1" using eff by simp
  have room1: "unat (current_tick (master_semaphore s1)) + 1 < 2 ^ 64"
    using eff assms(3) by simp
  have "stamps s2 = stamps s0 @ pending_stamps s0 @ recorded_stamps ops \<and> pending_commands s2 = []"
    if "Finish sg wt evs s1 = Done (s2, rest)" for evs s2 rest
    using Finish_effect [OF inv1 room1 that] eff by simp
  then show ?thesis
    using Finish_returns [OF inv1 room1, of sg wt] by blast
qed

theorem Finish_runs_recorded_closures_in_order_witness:
  "scheduler_invariant example_scheduler \<and>
   (\<exists>s1 s2. run example_records example_scheduler = Inr ([], s1) \<and> faultless s1 \<and>
      Finish 0 0 example_events s1 = Done (s2, []) \<and>
      stamps s2 = [10, 11, 12, 13, 14] \<and> pending_commands s2 = [] \<and>
      (\<exists>chunks submissions s3 rest.
         Finish 0 0 (drain_schedule chunks submissions) s1 = Done (s3, rest)))"
proof -
  have inv: "scheduler_invariant example_scheduler"
    by (simp add: example_scheduler_def Scheduler_new_invariant)
  have "case run example_records example_scheduler of
          Inl err \<Rightarrow> False
        | Inr (ticks, s1) \<Rightarrow> ticks = [] \<and> faultless s1 \<and>
            (case Finish 0 0 example_events s1 of
               Done (s2, rest) \<Rightarrow> rest = []
             | _ \<Rightarrow> False)"
    by (simp add: example_records_def example_events_def run_eval faultless_def
        pending_commands_def)
  then obtain s1 where run: "run example_records example_scheduler = Inr ([], s1)"
    and safe: "faultless s1"
    and returned: "case Finish 0 0 example_events s1 of
                     Done (s2, rest) \<Rightarrow> rest = []
                   | _ \<Rightarrow> False"
    by (auto split: sum.splits)
  from returned obtain s2 where fin: "Finish 0 0 example_events s1 = Done (s2, [])"
    by (cases "Finish 0 0 example_events s1") auto
  have room: "unat (current_tick (master_semaphore example_scheduler)) + length ([] :: u64 list) + 1
                < 2 ^ 64"
    by (simp add: example_scheduler_def Scheduler_new_def AcquireNewChunk_def
        AllocateWorkerCommandBuffer_def)
  have start: "stamps example_scheduler = []" "pending_stamps example_scheduler = []"
    by (simp_all add: pending_stamps_def pending_commands_def example_scheduler_def
        Scheduler_new_def AcquireNewChunk_def AllocateWorkerCommandBuffer_def)
  note in_order = Finish_runs_recorded_closures_in_order [OF inv run room, of 0 0]
  have "stamps s2 = stamps example_scheduler @ pending_stamps example_scheduler @
                      recorded_stamps example_records \<and> pending_commands s2 = []"
    using in_order fin by blast
  then have "stamps s2 = [10, 11, 12, 13, 14] \<and> pending_commands s2 = []"
    using start by (simp add: example_records_def)
  moreover have "\<exists>chunks submissions s3 rest.
         Finish 0 0 (drain_schedule chunks submissions) s1 = Done (s3, rest)"
    using in_order safe by blast
  ultimately show ?thesis
    using inv run safe fin by blast
qed

end
